theory Spec2Isabelle
  imports Complex_Main "HOL-Library.Multiset"
begin

section \<open>Data model (models.py, visits.py)\<close>

text \<open>
  Python's unbounded \<open>int\<close> is \<open>int\<close>. Python's \<open>float\<close> is modelled by \<open>real\<close>:
  seconds, degrees and metres are exact real numbers, so \<open>x / 1000.0\<close> is exact
  division and comparisons are the real ones (rounding of IEEE doubles is not modelled).
  The threshold \<open>min_dwell_seconds\<close>, which the filter compares a duration against, keeps
  the values of a double that are no real number: with NaN every comparison is false, and
  the infinities compare as they do in Python.
\<close>

datatype pyfloat = Finite real | PosInf | NegInf | NaN

text \<open>\<open>x < f\<close> and \<open>x >= f\<close> for a finite \<open>x\<close> and a float \<open>f\<close>.\<close>

definition float_lt :: "real \<Rightarrow> pyfloat \<Rightarrow> bool" where
  "float_lt x f =
     (case f of Finite y \<Rightarrow> x < y | PosInf \<Rightarrow> True | NegInf \<Rightarrow> False | NaN \<Rightarrow> False)"

definition float_ge :: "real \<Rightarrow> pyfloat \<Rightarrow> bool" where
  "float_ge x f =
     (case f of Finite y \<Rightarrow> y \<le> x | PosInf \<Rightarrow> False | NegInf \<Rightarrow> True | NaN \<Rightarrow> False)"

record TrackPoint =
  geo_time_ms :: int
  latitude :: real
  longitude :: real
  altitude_m :: real
  speed_mps :: real
  horizontal_accuracy_m :: real
  location_type :: int

text \<open>
  A timezone-aware \<open>datetime\<close> is the instant (epoch milliseconds) together with the
  name of its zone.
\<close>

datatype datetime = Datetime (dt_epoch_ms: int) (dt_zone: string)

record Visit =
  visit_id :: int
  start_dt :: datetime
  end_dt :: datetime
  start_ms :: int
  end_ms :: int
  points :: int
  "method" :: string

text \<open>\<open>Visit.duration_seconds\<close>: \<open>max(0.0, (self.end_ms - self.start_ms) / 1000.0)\<close>.\<close>

definition duration_seconds :: "Visit \<Rightarrow> real" where
  "duration_seconds v = max 0 (real_of_int (end_ms v - start_ms v) / 1000)"

record GeofenceCircle =
  center_lat :: real
  center_lon :: real
  radius_m :: real

record VisitParams =
  tz_name :: string
  max_gap_seconds :: real
  exit_grace_seconds :: real
  transition_gap_seconds :: real
  min_dwell_seconds :: pyfloat

record VisitsTotal =
  visits :: int
  total_seconds :: real

section \<open>Boundary estimator (visits.py, \<open>_boundary_ms\<close>)\<close>

definition boundary_ms :: "int \<Rightarrow> int \<Rightarrow> real \<Rightarrow> string \<Rightarrow> int" where
  "boundary_ms prev_ms cur_ms max_gap_s prefer =
     (if cur_ms < prev_ms then prev_ms
      else let gap_s = real_of_int (cur_ms - prev_ms) / 1000 in
        if gap_s \<le> max_gap_s then prev_ms + (cur_ms - prev_ms) div 2
        else if prefer = ''prev'' then prev_ms else cur_ms)"

section \<open>Geometry predicate (geo.py)\<close>

text \<open>
  \<open>math.radians\<close>, \<open>math.atan2\<close> (written out by quadrant) and the haversine distance
  with mean Earth radius 6371000 m.
\<close>

definition radians :: "real \<Rightarrow> real" where
  "radians x = x * pi / 180"

definition atan2 :: "real \<Rightarrow> real \<Rightarrow> real" where
  "atan2 y x =
     (if 0 < x then arctan (y / x)
      else if x < 0 \<and> 0 \<le> y then arctan (y / x) + pi
      else if x < 0 then arctan (y / x) - pi
      else if 0 < y then pi / 2
      else if y < 0 then - (pi / 2)
      else 0)"

definition haversine_m :: "real \<Rightarrow> real \<Rightarrow> real \<Rightarrow> real \<Rightarrow> real" where
  "haversine_m lat1 lon1 lat2 lon2 =
     (let r = 6371000;
          phi1 = radians lat1;
          phi2 = radians lat2;
          d_phi = radians (lat2 - lat1);
          d_lambda = radians (lon2 - lon1);
          a = (sin (d_phi / 2))\<^sup>2 + cos phi1 * cos phi2 * (sin (d_lambda / 2))\<^sup>2;
          c = 2 * atan2 (sqrt a) (sqrt (1 - a))
      in r * c)"

definition is_inside_circle :: "real \<Rightarrow> real \<Rightarrow> real \<Rightarrow> real \<Rightarrow> real \<Rightarrow> bool" where
  "is_inside_circle lat lon c_lat c_lon rad \<longleftrightarrow> haversine_m lat lon c_lat c_lon \<le> rad"

section \<open>Time conversion (timeutils.py)\<close>

text \<open>
  \<open>ZoneInfo\<close> and \<open>datetime.fromtimestamp\<close> belong to the Python standard library and
  the system's zone database, so they are parameters: \<open>zone_known\<close> says for which names
  \<open>ZoneInfo(tz_name)\<close> succeeds, \<open>timestamp_ok\<close> for which instants
  \<open>datetime.fromtimestamp\<close> stays inside the range of \<open>datetime\<close>. Every raise of the
  source is a value \<open>Inl\<close>.
\<close>

datatype error = ValueError | OverflowError

record pyenv =
  zone_known :: "string \<Rightarrow> bool"
  timestamp_ok :: "int \<Rightarrow> string \<Rightarrow> bool"

definition tzinfo_from_name :: "pyenv \<Rightarrow> string \<Rightarrow> error + string" where
  "tzinfo_from_name env name =
     (if zone_known env name then Inr name else Inl ValueError)"

definition dt_from_epoch_ms :: "pyenv \<Rightarrow> int \<Rightarrow> string \<Rightarrow> error + datetime" where
  "dt_from_epoch_ms env epoch_ms name =
     (case tzinfo_from_name env name of
        Inl e \<Rightarrow> Inl e
      | Inr tz \<Rightarrow>
          if timestamp_ok env epoch_ms tz then Inr (Datetime epoch_ms tz)
          else Inl OverflowError)"

section \<open>Visit filter and builder (visits.py, \<open>_append_visit\<close>)\<close>

text \<open>
  The source appends to the list \<open>visits\<close> in place and returns nothing; the model returns
  the list. The two early \<open>return\<close>s leave the list as it is.
\<close>

definition append_visit ::
  "pyenv \<Rightarrow> Visit list \<Rightarrow> int \<Rightarrow> int \<Rightarrow> int \<Rightarrow> int \<Rightarrow> string \<Rightarrow> string \<Rightarrow> pyfloat
     \<Rightarrow> error + Visit list" where
  "append_visit env vs vid s_ms e_ms pts meth name min_dwell_s =
     (if e_ms \<le> s_ms then Inr vs
      else if float_lt (real_of_int (e_ms - s_ms) / 1000) min_dwell_s then Inr vs
      else
        (case dt_from_epoch_ms env s_ms name of
           Inl e \<Rightarrow> Inl e
         | Inr sdt \<Rightarrow>
             (case dt_from_epoch_ms env e_ms name of
                Inl e \<Rightarrow> Inl e
              | Inr edt \<Rightarrow>
                  Inr (vs @ [\<lparr>visit_id = vid, start_dt = sdt, end_dt = edt,
                              start_ms = s_ms, end_ms = e_ms, points = pts,
                              method = meth\<rparr>]))))"

section \<open>Segmentation engine (visits.py, \<open>find_visits\<close>)\<close>

text \<open>
  The local variables of \<open>find_visits\<close>, threaded through the loop. The fields keep the
  names of the variables; \<open>visits_v\<close>, \<open>visit_id_v\<close> and \<open>method_v\<close> are the variables
  \<open>visits\<close>, \<open>visit_id\<close> and \<open>method\<close> (the plain names are fields of the records above).
\<close>

record loop_state =
  visits_v :: "Visit list"
  in_visit :: bool
  visit_start_ms :: int
  visit_end_ms :: int
  last_inside_ms :: int
  outside_started_ms :: "int option"
  visit_points :: int
  visit_id_v :: int
  method_v :: string
  prev :: TrackPoint
  prev_inside :: bool

definition point_inside :: "GeofenceCircle \<Rightarrow> TrackPoint \<Rightarrow> bool" where
  "point_inside geofence p \<longleftrightarrow>
     is_inside_circle (latitude p) (longitude p)
       (center_lat geofence) (center_lon geofence) (radius_m geofence)"

text \<open>The state before the loop: lines 83 to 103, from the first sorted point.\<close>

definition init_state :: "GeofenceCircle \<Rightarrow> TrackPoint \<Rightarrow> loop_state" where
  "init_state geofence p0 =
     (let s0 = \<lparr>visits_v = [], in_visit = False, visit_start_ms = 0, visit_end_ms = 0,
                last_inside_ms = 0, outside_started_ms = None, visit_points = 0,
                visit_id_v = 1, method_v = ''midpoint'', prev = p0,
                prev_inside = point_inside geofence p0\<rparr>
      in if point_inside geofence p0
         then s0\<lparr>in_visit := True, visit_start_ms := geo_time_ms p0,
                 visit_end_ms := geo_time_ms p0, last_inside_ms := geo_time_ms p0,
                 visit_points := 1, method_v := ''start_at_first_inside''\<rparr>
         else s0)"

text \<open>
  One iteration of \<open>for cur in pts[1:]\<close> up to, and without, the two assignments
  \<open>prev = cur; prev_inside = cur_inside\<close>. (\<open>gap_s\<close> of line 110 is never read.)
\<close>

definition step_body ::
  "pyenv \<Rightarrow> GeofenceCircle \<Rightarrow> VisitParams \<Rightarrow> loop_state \<Rightarrow> TrackPoint \<Rightarrow> error + loop_state" where
  "step_body env geofence params s cur =
     (let cur_inside = point_inside geofence cur in
      if \<not> in_visit s then
        (if \<not> prev_inside s \<and> cur_inside then
           Inr (s\<lparr>visit_start_ms :=
                     boundary_ms (geo_time_ms (prev s)) (geo_time_ms cur)
                       (transition_gap_seconds params) ''cur'',
                   visit_end_ms := geo_time_ms cur,
                   last_inside_ms := geo_time_ms cur,
                   visit_points := 1,
                   in_visit := True,
                   outside_started_ms := None,
                   method_v := ''midpoint_entry''\<rparr>)
         else if cur_inside then
           Inr (s\<lparr>visit_start_ms := geo_time_ms cur,
                   visit_end_ms := geo_time_ms cur,
                   last_inside_ms := geo_time_ms cur,
                   visit_points := 1,
                   in_visit := True,
                   outside_started_ms := None,
                   method_v := ''start_at_inside''\<rparr>)
         else Inr s)
      else if cur_inside then
        (if 0 < last_inside_ms s \<and>
            max_gap_seconds params < real_of_int (geo_time_ms cur - last_inside_ms s) / 1000
         then
           (case append_visit env (visits_v s) (visit_id_v s) (visit_start_ms s)
                   (last_inside_ms s) (visit_points s) ''split_on_inside_gap''
                   (tz_name params) (min_dwell_seconds params) of
              Inl e \<Rightarrow> Inl e
            | Inr vs \<Rightarrow>
                Inr (s\<lparr>outside_started_ms := None,
                        visits_v := vs,
                        visit_id_v := visit_id_v s + 1,
                        visit_start_ms := geo_time_ms cur,
                        visit_end_ms := geo_time_ms cur,
                        last_inside_ms := geo_time_ms cur,
                        visit_points := 1,
                        method_v := ''restart_after_gap''\<rparr>))
         else
           Inr (s\<lparr>outside_started_ms := None,
                   visit_end_ms := geo_time_ms cur,
                   last_inside_ms := geo_time_ms cur,
                   visit_points := visit_points s + 1\<rparr>))
      else
        (let started = (case outside_started_ms s of None \<Rightarrow> geo_time_ms cur | Some t \<Rightarrow> t);
             outside_s = (if started \<le> geo_time_ms cur
                          then real_of_int (geo_time_ms cur - started) / 1000 else 0)
         in if exit_grace_seconds params \<le> outside_s then
              (let exit_ms = boundary_ms (last_inside_ms s) started
                               (transition_gap_seconds params) ''prev'';
                   end_ms' = max (visit_end_ms s) exit_ms
               in case append_visit env (visits_v s) (visit_id_v s) (visit_start_ms s)
                         end_ms' (visit_points s) ''exit_grace''
                         (tz_name params) (min_dwell_seconds params) of
                    Inl e \<Rightarrow> Inl e
                  | Inr vs \<Rightarrow>
                      Inr (s\<lparr>outside_started_ms := None,
                              visit_end_ms := end_ms',
                              visits_v := vs,
                              visit_id_v := visit_id_v s + 1,
                              in_visit := False,
                              visit_points := 0\<rparr>))
            else Inr (s\<lparr>outside_started_ms := Some started\<rparr>)))"

definition step ::
  "pyenv \<Rightarrow> GeofenceCircle \<Rightarrow> VisitParams \<Rightarrow> loop_state \<Rightarrow> TrackPoint \<Rightarrow> error + loop_state" where
  "step env geofence params s cur =
     (case step_body env geofence params s cur of
        Inl e \<Rightarrow> Inl e
      | Inr s' \<Rightarrow> Inr (s'\<lparr>prev := cur, prev_inside := point_inside geofence cur\<rparr>))"

fun run_loop ::
  "pyenv \<Rightarrow> GeofenceCircle \<Rightarrow> VisitParams \<Rightarrow> loop_state \<Rightarrow> TrackPoint list \<Rightarrow> error + loop_state" where
  "run_loop env geofence params s [] = Inr s"
| "run_loop env geofence params s (cur # rest) =
     (case step env geofence params s cur of
        Inl e \<Rightarrow> Inl e
      | Inr s' \<Rightarrow> run_loop env geofence params s' rest)"

text \<open>After the loop: lines 195 to 209.\<close>

definition close_at_end :: "pyenv \<Rightarrow> VisitParams \<Rightarrow> loop_state \<Rightarrow> error + Visit list" where
  "close_at_end env params s =
     (if in_visit s then
        (let end_ms' = (if 0 < last_inside_ms s then last_inside_ms s
                        else geo_time_ms (prev s))
         in append_visit env (visits_v s) (visit_id_v s) (visit_start_ms s) end_ms'
              (visit_points s) (method_v s) (tz_name params) (min_dwell_seconds params))
      else Inr (visits_v s))"

text \<open>
  \<open>sorted(points, key=lambda p: p.geo_time_ms)\<close> is a stable sort by the key, as
  \<open>sort_key\<close> is.
\<close>

definition find_visits ::
  "pyenv \<Rightarrow> TrackPoint list \<Rightarrow> GeofenceCircle \<Rightarrow> VisitParams \<Rightarrow> error + Visit list" where
  "find_visits env pts geofence params =
     (case sort_key geo_time_ms pts of
        [] \<Rightarrow> Inr []
      | p0 # rest \<Rightarrow>
          (case run_loop env geofence params (init_state geofence p0) rest of
             Inl e \<Rightarrow> Inl e
           | Inr s \<Rightarrow> close_at_end env params s))"

section \<open>Summation (visits.py, \<open>sum_visits\<close>)\<close>

text \<open>
  The loop \<open>for v in visits: total += v.duration_seconds; count += 1\<close>, started at
  \<open>total = 0.0\<close>, \<open>count = 0\<close>.
\<close>

fun sum_visits_loop :: "real \<Rightarrow> int \<Rightarrow> Visit list \<Rightarrow> VisitsTotal" where
  "sum_visits_loop total_acc count_acc [] = \<lparr>visits = count_acc, total_seconds = total_acc\<rparr>"
| "sum_visits_loop total_acc count_acc (v # vs) =
     sum_visits_loop (total_acc + duration_seconds v) (count_acc + 1) vs"

definition sum_visits :: "Visit list \<Rightarrow> VisitsTotal" where
  "sum_visits vs = sum_visits_loop 0 0 vs"

section \<open>Clipped summaries (cli.py, \<open>_cmd_sum_visits\<close>; streamlit_app.py)\<close>

text \<open>
  The branch of \<open>_cmd_sum_visits\<close> taken when a range is given (lines 376 to 384).
  \<open>range_start\<close> and \<open>range_end\<close> are \<open>int(start_ms)\<close> and \<open>int(end_ms)\<close>, \<open>None\<close> when
  that end of the range is absent.
\<close>

definition clipped_seconds :: "int option \<Rightarrow> int option \<Rightarrow> int \<Rightarrow> int \<Rightarrow> real" where
  "clipped_seconds range_start range_end v_start v_end =
     (let lo = (case range_start of None \<Rightarrow> v_start | Some a \<Rightarrow> max v_start a);
          hi = (case range_end of None \<Rightarrow> v_end | Some b \<Rightarrow> min v_end b)
      in max 0 (real_of_int (hi - lo) / 1000))"

definition clipped_total :: "Visit list \<Rightarrow> int option \<Rightarrow> int option \<Rightarrow> VisitsTotal" where
  "clipped_total vs range_start range_end =
     \<lparr>visits = int (length vs),
      total_seconds =
        sum_list (map (\<lambda>v. clipped_seconds range_start range_end (start_ms v) (end_ms v)) vs)\<rparr>"

text \<open>\<open>_overlap_seconds\<close> of streamlit_app.py and the loop of \<open>main\<close> that uses it
  (\<open>hit\<close> and \<open>total_s\<close>, lines 136 to 145).\<close>

definition overlap_seconds :: "Visit \<Rightarrow> int \<Rightarrow> int \<Rightarrow> real" where
  "overlap_seconds visit range_start end_ms_exclusive =
     (let lo = max (start_ms visit) range_start;
          hi = min (end_ms visit) end_ms_exclusive
      in max 0 (real_of_int (hi - lo) / 1000))"

fun range_totals_loop :: "int \<Rightarrow> int \<Rightarrow> real \<Rightarrow> int \<Rightarrow> Visit list \<Rightarrow> VisitsTotal" where
  "range_totals_loop a b total_s hit [] = \<lparr>visits = hit, total_seconds = total_s\<rparr>"
| "range_totals_loop a b total_s hit (v # vs) =
     (let s = overlap_seconds v a b
      in if s \<le> 0 then range_totals_loop a b total_s hit vs
         else range_totals_loop a b (total_s + s) (hit + 1) vs)"

definition range_totals :: "Visit list \<Rightarrow> int \<Rightarrow> int \<Rightarrow> VisitsTotal" where
  "range_totals vs a b = range_totals_loop a b 0 0 vs"

section \<open>The engine's states and its invariants\<close>

text \<open>
  The three states of the engine, read off the variables: outside when \<open>in_visit\<close> is
  false; inside with a pending exit when \<open>outside_started_ms\<close> is set.
\<close>

datatype engine_state = OUTSIDE | INSIDE | INSIDE_PENDING_EXIT

definition engine_state_of :: "loop_state \<Rightarrow> engine_state" where
  "engine_state_of s =
     (if \<not> in_visit s then OUTSIDE
      else case outside_started_ms s of None \<Rightarrow> INSIDE | Some t \<Rightarrow> INSIDE_PENDING_EXIT)"

text \<open>
  For a sample that classifies outside during a visit: the value of \<open>outside_started_ms\<close>
  after line 166, and \<open>outside_s\<close> of line 167.
\<close>

definition exit_started :: "loop_state \<Rightarrow> TrackPoint \<Rightarrow> int" where
  "exit_started s cur =
     (case outside_started_ms s of None \<Rightarrow> geo_time_ms cur | Some t \<Rightarrow> t)"

definition outside_seconds :: "loop_state \<Rightarrow> TrackPoint \<Rightarrow> real" where
  "outside_seconds s cur =
     (if exit_started s cur \<le> geo_time_ms cur
      then real_of_int (geo_time_ms cur - exit_started s cur) / 1000 else 0)"

text \<open>A closing attempt: the conditions under which an iteration calls \<open>_append_visit\<close>.\<close>

definition closing_attempt :: "GeofenceCircle \<Rightarrow> VisitParams \<Rightarrow> loop_state \<Rightarrow> TrackPoint \<Rightarrow> bool" where
  "closing_attempt geofence params s cur =
     (in_visit s \<and>
      (if point_inside geofence cur
       then 0 < last_inside_ms s \<and>
            max_gap_seconds params < real_of_int (geo_time_ms cur - last_inside_ms s) / 1000
       else exit_grace_seconds params \<le> outside_seconds s cur))"

definition accepted :: "VisitParams \<Rightarrow> Visit \<Rightarrow> bool" where
  "accepted params v \<longleftrightarrow>
     start_ms v < end_ms v \<and>
     \<not> float_lt (real_of_int (end_ms v - start_ms v) / 1000) (min_dwell_seconds params)"

definition ids_inv :: "loop_state \<Rightarrow> bool" where
  "ids_inv s \<longleftrightarrow>
     sorted_wrt (<) (map visit_id (visits_v s)) \<and>
     list_all (\<lambda>v. visit_id v < visit_id_v s) (visits_v s)"

definition order_inv :: "loop_state \<Rightarrow> bool" where
  "order_inv s \<longleftrightarrow>
     sorted_wrt (\<lambda>a b. end_ms a \<le> start_ms b) (visits_v s) \<and>
     list_all (\<lambda>v. end_ms v \<le> (if in_visit s then visit_start_ms s else geo_time_ms (prev s)))
       (visits_v s) \<and>
     (in_visit s \<longrightarrow>
        visit_start_ms s \<le> last_inside_ms s \<and> last_inside_ms s \<le> geo_time_ms (prev s) \<and>
        visit_end_ms s \<le> geo_time_ms (prev s)) \<and>
     (case outside_started_ms s of None \<Rightarrow> True | Some t \<Rightarrow> t \<le> geo_time_ms (prev s))"

section \<open>Sample inputs\<close>

text \<open>
  A fence of radius 100 m at latitude 0, longitude 0; a sample at its centre (inside) and
  one at the antipode (outside), at a given time.
\<close>

definition sample_fence :: GeofenceCircle where
  "sample_fence = \<lparr>center_lat = 0, center_lon = 0, radius_m = 100\<rparr>"

definition inside_at :: "int \<Rightarrow> TrackPoint" where
  "inside_at t = \<lparr>geo_time_ms = t, latitude = 0, longitude = 0, altitude_m = 0,
                   speed_mps = 0, horizontal_accuracy_m = 0, location_type = 0\<rparr>"

definition outside_at :: "int \<Rightarrow> TrackPoint" where
  "outside_at t = \<lparr>geo_time_ms = t, latitude = 0, longitude = 180, altitude_m = 0,
                    speed_mps = 0, horizontal_accuracy_m = 0, location_type = 0\<rparr>"

definition sample_env :: pyenv where
  "sample_env = \<lparr>zone_known = (\<lambda>name. name = ''Asia/Shanghai'' \<or> name = ''UTC''),
                  timestamp_ok = (\<lambda>ms tz. - 62135596800000 \<le> ms \<and> ms \<le> 253402300799999)\<rparr>"

text \<open>The defaults of \<open>VisitParams\<close>, and a visit as \<open>_append_visit\<close> builds it.\<close>

definition default_params :: VisitParams where
  "default_params = \<lparr>tz_name = ''Asia/Shanghai'', max_gap_seconds = 43200,
                      exit_grace_seconds = 300, transition_gap_seconds = 600,
                      min_dwell_seconds = Finite 60\<rparr>"

definition mk_visit :: "int \<Rightarrow> int \<Rightarrow> int \<Rightarrow> int \<Rightarrow> string \<Rightarrow> string \<Rightarrow> Visit" where
  "mk_visit vid s_ms e_ms pts meth name =
     \<lparr>visit_id = vid, start_dt = Datetime s_ms name, end_dt = Datetime e_ms name,
      start_ms = s_ms, end_ms = e_ms, points = pts, method = meth\<rparr>"

text \<open>
  The state after the samples \<open>inside_at 1000000\<close>, \<open>inside_at 50000000\<close> under the
  default parameters: the gap of more than 12 hours has forced a split.
\<close>

definition gap_split_state :: loop_state where
  "gap_split_state =
     \<lparr>visits_v = [], in_visit = True, visit_start_ms = 50000000, visit_end_ms = 50000000,
      last_inside_ms = 50000000, outside_started_ms = None, visit_points = 1,
      visit_id_v = 2, method_v = ''restart_after_gap'', prev = inside_at 50000000,
      prev_inside = True\<rparr>"

text \<open>
  States of a run over the inside samples at 1000 s and 1060 s: after them (INSIDE), after a
  further outside sample at 1120 s under the default parameters (INSIDE_PENDING_EXIT), and
  after the visit was closed at an outside sample \<open>cur\<close>.
\<close>

definition inside_state :: loop_state where
  "inside_state =
     \<lparr>visits_v = [], in_visit = True, visit_start_ms = 1000000, visit_end_ms = 1060000,
      last_inside_ms = 1060000, outside_started_ms = None, visit_points = 2,
      visit_id_v = 1, method_v = ''start_at_first_inside'', prev = inside_at 1060000,
      prev_inside = True\<rparr>"

definition pending_state :: loop_state where
  "pending_state =
     inside_state\<lparr>outside_started_ms := Some 1120000, prev := outside_at 1120000,
                    prev_inside := False\<rparr>"

definition closed_state :: "TrackPoint \<Rightarrow> loop_state" where
  "closed_state cur =
     inside_state\<lparr>visits_v := [mk_visit 1 1000000 1090000 2 ''exit_grace'' ''Asia/Shanghai''],
                    in_visit := False, visit_end_ms := 1090000, visit_points := 0,
                    visit_id_v := 2, prev := cur, prev_inside := False\<rparr>"

section \<open>Properties\<close>

subsection \<open>Sample inputs\<close>

lemma haversine_m_same: "haversine_m 0 0 0 0 = 0"
  by (simp add: haversine_m_def radians_def atan2_def)

lemma haversine_m_antipode: "haversine_m 0 180 0 0 = 6371000 * pi"
  by (simp add: haversine_m_def radians_def atan2_def Let_def)

lemma inside_at_inside [simp]: "point_inside sample_fence (inside_at t)"
  by (simp add: point_inside_def is_inside_circle_def sample_fence_def inside_at_def
      haversine_m_same)

lemma outside_at_outside [simp]: "\<not> point_inside sample_fence (outside_at t)"
proof -
  have "(100::real) < 6371000 * pi"
    using pi_ge_two by linarith
  then show ?thesis
    by (simp add: point_inside_def is_inside_circle_def sample_fence_def outside_at_def
        haversine_m_antipode)
qed

lemma geo_time_ms_samples [simp]:
  "geo_time_ms (inside_at t) = t" "geo_time_ms (outside_at t) = t"
  by (simp_all add: inside_at_def outside_at_def)

lemmas run_defs =
  find_visits_def init_state_def step_def step_body_def close_at_end_def append_visit_def
  dt_from_epoch_ms_def tzinfo_from_name_def boundary_ms_def Let_def sample_env_def
  default_params_def mk_visit_def float_lt_def

subsection \<open>Boundaries, durations and totals\<close>

lemma duration_seconds_nonneg: "0 \<le> duration_seconds v"
  by (simp add: duration_seconds_def)

lemma sum_visits_loop_total_nonneg:
  "0 \<le> total_acc \<Longrightarrow> 0 \<le> total_seconds (sum_visits_loop total_acc count_acc vs)"
proof (induction vs arbitrary: total_acc count_acc)
  case Nil
  then show ?case by simp
next
  case (Cons v vs)
  have "0 \<le> total_acc + duration_seconds v"
    using Cons.prems duration_seconds_nonneg [of v] by linarith
  then show ?case using Cons.IH by simp
qed

text \<open>
  Claim C3. The boundary estimator returns \<open>prev_time\<close> when \<open>cur_time < prev_time\<close>;
  returns the integer midpoint \<open>prev_time + floor((cur_time - prev_time) / 2)\<close> when the
  gap in seconds is at most the threshold; and otherwise returns \<open>prev_time\<close> or
  \<open>cur_time\<close> according to the preferred side.
\<close>

theorem boundary_ms_cases:
  "(cur_ms < prev_ms \<longrightarrow> boundary_ms prev_ms cur_ms thr prefer = prev_ms) \<and>
   (prev_ms \<le> cur_ms \<and> real_of_int (cur_ms - prev_ms) / 1000 \<le> thr \<longrightarrow>
      boundary_ms prev_ms cur_ms thr prefer = prev_ms + \<lfloor>real_of_int (cur_ms - prev_ms) / 2\<rfloor>) \<and>
   (prev_ms \<le> cur_ms \<and> thr < real_of_int (cur_ms - prev_ms) / 1000 \<longrightarrow>
      boundary_ms prev_ms cur_ms thr ''prev'' = prev_ms \<and>
      boundary_ms prev_ms cur_ms thr ''cur'' = cur_ms)"
proof -
  have "\<lfloor>real_of_int (cur_ms - prev_ms) / 2\<rfloor> = (cur_ms - prev_ms) div 2"
    using floor_divide_of_int_eq [of "cur_ms - prev_ms" 2] by simp
  then show ?thesis
    by (simp add: boundary_ms_def Let_def)
qed

theorem boundary_ms_cases_witness:
  "(3::int) < 5 \<and> boundary_ms 5 3 10 ''cur'' = 5 \<and>
   (60000::int) \<le> 120001 \<and> real_of_int (120001 - 60000) / 1000 \<le> (600::real) \<and>
   boundary_ms 60000 120001 600 ''prev'' = 90000 \<and>
   (0::int) \<le> 700000 \<and> (600::real) < real_of_int (700000 - 0) / 1000 \<and>
   boundary_ms 0 700000 600 ''prev'' = 0 \<and>
   boundary_ms 0 700000 600 ''cur'' = 700000"
  using boundary_ms_cases [of 3 5 10 "''cur''"]
    boundary_ms_cases [of 120001 60000 600 "''prev''"]
    boundary_ms_cases [of 700000 0 600 "''prev''"]
  by simp

text \<open>
  Claim C10. \<open>Visit.duration_seconds\<close> is clamped at zero: for every visit value, also
  one whose end precedes its start, it equals \<open>max(0, (end_ms - start_ms) / 1000)\<close>, so
  the total returned by \<open>sum_visits\<close> is never negative.
\<close>

theorem sum_visits_total_nonneg:
  "duration_seconds v = max 0 (real_of_int (end_ms v - start_ms v) / 1000) \<and>
   0 \<le> duration_seconds v \<and>
   0 \<le> total_seconds (sum_visits vs)"
  by (simp add: duration_seconds_def sum_visits_def sum_visits_loop_total_nonneg)

subsection \<open>The engine, case by case\<close>

lemma append_visit_cases:
  assumes "append_visit env vs vid s_ms e_ms n m z d = Inr vs'"
  obtains (rejected) "vs' = vs" "e_ms \<le> s_ms \<or> float_lt (real_of_int (e_ms - s_ms) / 1000) d"
  | (accepted) sdt edt where "s_ms < e_ms" "\<not> float_lt (real_of_int (e_ms - s_ms) / 1000) d"
      "vs' = vs @ [\<lparr>visit_id = vid, start_dt = sdt, end_dt = edt, start_ms = s_ms,
                     end_ms = e_ms, points = n, method = m\<rparr>]"
  using assms unfolding append_visit_def
  by (auto split: if_splits sum.splits)

lemma step_body_cases:
  assumes "step_body env g p s cur = Inr s'"
  obtains
    (enter_mid) "\<not> in_visit s" "\<not> prev_inside s" "point_inside g cur"
      "s' = s\<lparr>visit_start_ms := boundary_ms (geo_time_ms (prev s)) (geo_time_ms cur)
                       (transition_gap_seconds p) ''cur'',
               visit_end_ms := geo_time_ms cur, last_inside_ms := geo_time_ms cur,
               visit_points := 1, in_visit := True, outside_started_ms := None,
               method_v := ''midpoint_entry''\<rparr>"
  | (enter_at) "\<not> in_visit s" "prev_inside s" "point_inside g cur"
      "s' = s\<lparr>visit_start_ms := geo_time_ms cur,
               visit_end_ms := geo_time_ms cur, last_inside_ms := geo_time_ms cur,
               visit_points := 1, in_visit := True, outside_started_ms := None,
               method_v := ''start_at_inside''\<rparr>"
  | (stay_out) "\<not> in_visit s" "\<not> point_inside g cur" "s' = s"
  | (split) vs where "in_visit s" "point_inside g cur" "0 < last_inside_ms s"
      "max_gap_seconds p < real_of_int (geo_time_ms cur - last_inside_ms s) / 1000"
      "append_visit env (visits_v s) (visit_id_v s) (visit_start_ms s) (last_inside_ms s)
         (visit_points s) ''split_on_inside_gap'' (tz_name p) (min_dwell_seconds p) = Inr vs"
      "s' = s\<lparr>outside_started_ms := None, visits_v := vs, visit_id_v := visit_id_v s + 1,
               visit_start_ms := geo_time_ms cur, visit_end_ms := geo_time_ms cur,
               last_inside_ms := geo_time_ms cur, visit_points := 1,
               method_v := ''restart_after_gap''\<rparr>"
  | (extend) "in_visit s" "point_inside g cur"
      "\<not> (0 < last_inside_ms s \<and>
          max_gap_seconds p < real_of_int (geo_time_ms cur - last_inside_ms s) / 1000)"
      "s' = s\<lparr>outside_started_ms := None, visit_end_ms := geo_time_ms cur,
               last_inside_ms := geo_time_ms cur, visit_points := visit_points s + 1\<rparr>"
  | (close) vs where "in_visit s" "\<not> point_inside g cur"
      "exit_grace_seconds p \<le> outside_seconds s cur"
      "append_visit env (visits_v s) (visit_id_v s) (visit_start_ms s)
         (max (visit_end_ms s)
            (boundary_ms (last_inside_ms s) (exit_started s cur)
               (transition_gap_seconds p) ''prev''))
         (visit_points s) ''exit_grace'' (tz_name p) (min_dwell_seconds p) = Inr vs"
      "s' = s\<lparr>outside_started_ms := None,
               visit_end_ms := max (visit_end_ms s)
                 (boundary_ms (last_inside_ms s) (exit_started s cur)
                    (transition_gap_seconds p) ''prev''),
               visits_v := vs, visit_id_v := visit_id_v s + 1, in_visit := False,
               visit_points := 0\<rparr>"
  | (pending) "in_visit s" "\<not> point_inside g cur"
      "\<not> exit_grace_seconds p \<le> outside_seconds s cur"
      "s' = s\<lparr>outside_started_ms := Some (exit_started s cur)\<rparr>"
proof (cases "in_visit s")
  case False
  then show ?thesis
    using assms enter_mid enter_at stay_out
    unfolding step_body_def Let_def by (simp split: if_splits)
next
  case True
  show ?thesis
  proof (cases "point_inside g cur")
    case inside: True
    then show ?thesis
      using assms True split extend
      unfolding step_body_def Let_def by (simp split: if_splits sum.splits)
  next
    case False
    then show ?thesis
      using assms True close pending
      unfolding step_body_def Let_def outside_seconds_def exit_started_def
      by (simp split: if_splits sum.splits)
  qed
qed



lemma step_cases:
  assumes "step env g p s cur = Inr s'"
  obtains s1 where "step_body env g p s cur = Inr s1"
    "s' = s1\<lparr>prev := cur, prev_inside := point_inside g cur\<rparr>"
  using assms unfolding step_def by (auto split: sum.splits)

lemma boundary_ms_lower: "prev_ms \<le> boundary_ms prev_ms cur_ms thr prefer"
  by (simp add: boundary_ms_def Let_def)

lemma boundary_ms_upper: "boundary_ms prev_ms cur_ms thr prefer \<le> max prev_ms cur_ms"
proof -
  have "prev_ms \<le> cur_ms \<Longrightarrow> prev_ms + (cur_ms - prev_ms) div 2 \<le> cur_ms"
    by linarith
  then show ?thesis
    by (auto simp add: boundary_ms_def Let_def)
qed

subsection \<open>The engine returns\<close>

text \<open>
  When the zone name is known and every instant is in range, no call of the model
  raises: the results below, stated for a returned list, are about every such run. (In
  double arithmetic \<open>math.sqrt(1 - a)\<close> of \<open>haversine_m\<close> can still raise, where rounding
  gives \<open>a > 1\<close>; over the reals \<open>a\<close> never exceeds 1.)
\<close>

lemma append_visit_returns:
  assumes "zone_known env z" and "\<forall>ms. timestamp_ok env ms z"
  shows "\<exists>vs'. append_visit env vs vid s_ms e_ms n m z d = Inr vs'"
  using assms
  by (simp add: append_visit_def dt_from_epoch_ms_def tzinfo_from_name_def)

lemma step_returns:
  assumes "zone_known env (tz_name p)" and "\<forall>ms. timestamp_ok env ms (tz_name p)"
  shows "\<exists>s'. step env g p s cur = Inr s'"
proof -
  have app: "\<exists>vs'. append_visit env vs vid s_ms e_ms n m (tz_name p) d = Inr vs'"
    for vs vid s_ms e_ms n m d
    using assms by (rule append_visit_returns)
  have "\<exists>s'. step_body env g p s cur = Inr s'"
  proof (cases "in_visit s")
    case False
    then show ?thesis by (simp add: step_body_def Let_def)
  next
    case True
    obtain vs1 where vs1: "append_visit env (visits_v s) (visit_id_v s) (visit_start_ms s)
        (last_inside_ms s) (visit_points s) ''split_on_inside_gap''
        (tz_name p) (min_dwell_seconds p) = Inr vs1"
      using app by blast
    obtain vs2 where vs2: "append_visit env (visits_v s) (visit_id_v s) (visit_start_ms s)
        (max (visit_end_ms s)
           (boundary_ms (last_inside_ms s)
              (case outside_started_ms s of None \<Rightarrow> geo_time_ms cur | Some t \<Rightarrow> t)
              (transition_gap_seconds p) ''prev''))
        (visit_points s) ''exit_grace'' (tz_name p) (min_dwell_seconds p) = Inr vs2"
      using app by blast
    show ?thesis
      using True vs1 vs2 unfolding step_body_def Let_def by simp
  qed
  then show ?thesis
    by (auto simp add: step_def)
qed

lemma run_loop_returns:
  assumes "zone_known env (tz_name p)" and "\<forall>ms. timestamp_ok env ms (tz_name p)"
  shows "\<exists>s'. run_loop env g p s rest = Inr s'"
proof (induction rest arbitrary: s)
  case Nil
  then show ?case by simp
next
  case (Cons cur rest)
  obtain s1 where "step env g p s cur = Inr s1"
    using step_returns [OF assms] by blast
  then show ?case using Cons.IH [of s1] by simp
qed

lemma find_visits_returns:
  assumes "zone_known env (tz_name p)" and "\<forall>ms. timestamp_ok env ms (tz_name p)"
  shows "\<exists>vs. find_visits env pts g p = Inr vs"
proof (cases "sort_key geo_time_ms pts")
  case Nil
  then show ?thesis by (simp add: find_visits_def)
next
  case (Cons p0 rest)
  obtain s where s: "run_loop env g p (init_state g p0) rest = Inr s"
    using run_loop_returns [OF assms] by blast
  have "\<exists>vs. close_at_end env p s = Inr vs"
    using append_visit_returns [OF assms] by (simp add: close_at_end_def Let_def)
  then show ?thesis
    using Cons s by (simp add: find_visits_def)
qed

subsection \<open>Accepted visits\<close>

lemma append_visit_accepted:
  assumes "append_visit env vs vid s_ms e_ms n m z (min_dwell_seconds p) = Inr vs'"
    and "list_all (accepted p) vs"
  shows "list_all (accepted p) vs'"
  using assms(1)
proof (cases rule: append_visit_cases)
  case rejected
  then show ?thesis using assms(2) by simp
next
  case (accepted sdt edt)
  then show ?thesis using assms(2) by (simp add: accepted_def)
qed

lemma step_accepted:
  assumes "step env g p s cur = Inr s'" and "list_all (accepted p) (visits_v s)"
  shows "list_all (accepted p) (visits_v s')"
  using assms(1)
proof (cases rule: step_cases)
  case (1 s1)
  from 1(1) have "list_all (accepted p) (visits_v s1)"
  proof (cases rule: step_body_cases)
    case (split vs)
    then show ?thesis using append_visit_accepted assms(2) by simp
  next
    case (close vs)
    then show ?thesis using append_visit_accepted assms(2) by simp
  qed (use assms(2) in simp_all)
  then show ?thesis using 1(2) by simp
qed

lemma run_loop_accepted:
  "run_loop env g p s rest = Inr s' \<Longrightarrow> list_all (accepted p) (visits_v s) \<Longrightarrow>
   list_all (accepted p) (visits_v s')"
proof (induction rest arbitrary: s)
  case Nil
  then show ?case by simp
next
  case (Cons cur rest)
  from Cons.prems(1) obtain s1 where s1: "step env g p s cur = Inr s1"
    and rest: "run_loop env g p s1 rest = Inr s'"
    by (auto split: sum.splits)
  have "list_all (accepted p) (visits_v s1)"
    using step_accepted [OF s1 Cons.prems(2)] .
  then show ?case using Cons.IH [OF rest] by simp
qed

lemma find_visits_cases:
  assumes "find_visits env pts g p = Inr vs"
  obtains (empty) "pts = []" "vs = []"
  | (run) p0 rest s where "sort_key geo_time_ms pts = p0 # rest"
      "run_loop env g p (init_state g p0) rest = Inr s" "close_at_end env p s = Inr vs"
proof (cases "sort_key geo_time_ms pts")
  case Nil
  then have "pts = []"
    using length_sort [of geo_time_ms pts] by simp
  then show ?thesis
    using assms empty by (simp add: find_visits_def)
next
  case (Cons p0 rest)
  then show ?thesis
    using assms run by (auto simp add: find_visits_def split: sum.splits)
qed

lemma close_at_end_accepted:
  assumes "close_at_end env p s = Inr vs" and "list_all (accepted p) (visits_v s)"
  shows "list_all (accepted p) vs"
  using assms append_visit_accepted unfolding close_at_end_def Let_def
  by (auto split: if_splits)

lemma find_visits_accepted:
  assumes "find_visits env pts g p = Inr vs"
  shows "list_all (accepted p) vs"
  using assms
proof (cases rule: find_visits_cases)
  case empty
  then show ?thesis by simp
next
  case (run p0 rest s)
  have "list_all (accepted p) (visits_v (init_state g p0))"
    by (simp add: init_state_def Let_def)
  then have "list_all (accepted p) (visits_v s)"
    using run_loop_accepted [OF run(2)] by simp
  then show ?thesis using close_at_end_accepted [OF run(3)] by simp
qed

lemma float_ge_iff: "f \<noteq> NaN \<Longrightarrow> float_ge x f \<longleftrightarrow> \<not> float_lt x f"
  by (cases f) (auto simp add: float_ge_def float_lt_def)

text \<open>
  Claim C1, as amended. Every visit in the list returned by \<open>find_visits\<close> has
  \<open>start_ms < end_ms\<close> and passed the test of line 225 (its duration in seconds is not
  below \<open>min_dwell_seconds\<close>), so that, for every parameter set whose \<open>min_dwell_seconds\<close> is
  not NaN, its duration in seconds is at least \<open>min_dwell_seconds\<close>; a closing candidate
  with \<open>end \<le> start\<close> or a duration below \<open>min_dwell_seconds\<close> is never emitted (the list
  is returned as it was).
\<close>

theorem find_visits_emits_accepted:
  "(find_visits env pts g p = Inr vs \<longrightarrow>
      (\<forall>v \<in> set vs. start_ms v < end_ms v \<and>
         \<not> float_lt (real_of_int (end_ms v - start_ms v) / 1000) (min_dwell_seconds p) \<and>
         (min_dwell_seconds p \<noteq> NaN \<longrightarrow>
            float_ge (real_of_int (end_ms v - start_ms v) / 1000) (min_dwell_seconds p)))) \<and>
   (e_ms \<le> s_ms \<or> float_lt (real_of_int (e_ms - s_ms) / 1000) (min_dwell_seconds p) \<longrightarrow>
      append_visit env vs0 vid s_ms e_ms n m (tz_name p) (min_dwell_seconds p) = Inr vs0)"
proof (intro conjI impI)
  assume "find_visits env pts g p = Inr vs"
  then have "list_all (accepted p) vs"
    by (rule find_visits_accepted)
  then have "\<forall>v \<in> set vs. start_ms v < end_ms v \<and>
      \<not> float_lt (real_of_int (end_ms v - start_ms v) / 1000) (min_dwell_seconds p)"
    by (simp add: list_all_iff accepted_def)
  then show "\<forall>v \<in> set vs. start_ms v < end_ms v \<and>
      \<not> float_lt (real_of_int (end_ms v - start_ms v) / 1000) (min_dwell_seconds p) \<and>
      (min_dwell_seconds p \<noteq> NaN \<longrightarrow>
         float_ge (real_of_int (end_ms v - start_ms v) / 1000) (min_dwell_seconds p))"
    by (simp add: float_ge_iff)
next
  assume "e_ms \<le> s_ms \<or> float_lt (real_of_int (e_ms - s_ms) / 1000) (min_dwell_seconds p)"
  then show "append_visit env vs0 vid s_ms e_ms n m (tz_name p) (min_dwell_seconds p) = Inr vs0"
    by (auto simp add: append_visit_def)
qed

theorem find_visits_emits_accepted_witness:
  "find_visits sample_env
     [inside_at 0, inside_at 60000, outside_at 120000, outside_at 720000]
     sample_fence default_params
     = Inr [mk_visit 1 0 90000 2 ''exit_grace'' ''Asia/Shanghai''] \<and>
   start_ms (mk_visit 1 0 90000 2 ''exit_grace'' ''Asia/Shanghai'')
     < end_ms (mk_visit 1 0 90000 2 ''exit_grace'' ''Asia/Shanghai'') \<and>
   min_dwell_seconds default_params \<noteq> NaN \<and>
   float_ge (real_of_int (90000 - 0) / 1000) (min_dwell_seconds default_params) \<and>
   float_lt (real_of_int (150000 - 120000) / 1000) (min_dwell_seconds default_params) \<and>
   append_visit sample_env [] 1 120000 150000 1 ''exit_grace''
     (tz_name default_params) (min_dwell_seconds default_params) = Inr []"
proof -
  have run: "find_visits sample_env
     [inside_at 0, inside_at 60000, outside_at 120000, outside_at 720000]
     sample_fence default_params
     = Inr [mk_visit 1 0 90000 2 ''exit_grace'' ''Asia/Shanghai'']"
    by (simp add: run_defs)
  have short: "float_lt (real_of_int (150000 - 120000) / 1000) (min_dwell_seconds default_params)"
    by (simp add: default_params_def float_lt_def)
  have fin: "min_dwell_seconds default_params \<noteq> NaN"
    by (simp add: default_params_def)
  show ?thesis
    using run short fin
      find_visits_emits_accepted [of sample_env
        "[inside_at 0, inside_at 60000, outside_at 120000, outside_at 720000]"
        sample_fence default_params
        "[mk_visit 1 0 90000 2 ''exit_grace'' ''Asia/Shanghai'']"
        150000 120000 "[]" 1 1 "''exit_grace''"]
    by (simp add: mk_visit_def)
qed

text \<open>
  Claim C1 as stated fails when \<open>min_dwell_seconds\<close> is NaN: the test of line 225 is then
  false for every candidate, so the one-second visit over the inside samples at 1000 ms
  and 2000 ms is returned, and its duration is not at least \<open>min_dwell_seconds\<close>.
\<close>

theorem nan_min_dwell_emits_visit:
  "find_visits sample_env [inside_at 1000, inside_at 2000] sample_fence
     (default_params\<lparr>min_dwell_seconds := NaN\<rparr>)
     = Inr [mk_visit 1 1000 2000 2 ''start_at_first_inside'' ''Asia/Shanghai''] \<and>
   \<not> float_ge
       (real_of_int (end_ms (mk_visit 1 1000 2000 2 ''start_at_first_inside'' ''Asia/Shanghai'')
                     - start_ms (mk_visit 1 1000 2000 2 ''start_at_first_inside'' ''Asia/Shanghai''))
        / 1000)
       (min_dwell_seconds (default_params\<lparr>min_dwell_seconds := NaN\<rparr>))"
proof -
  have "find_visits sample_env [inside_at 1000, inside_at 2000] sample_fence
     (default_params\<lparr>min_dwell_seconds := NaN\<rparr>)
     = Inr [mk_visit 1 1000 2000 2 ''start_at_first_inside'' ''Asia/Shanghai'']"
    by (simp add: run_defs)
  then show ?thesis
    by (simp add: float_ge_def)
qed

subsection \<open>Sequence numbers\<close>

lemma append_visit_ids:
  assumes "append_visit env vs vid s_ms e_ms n m z d = Inr vs'"
    and "sorted_wrt (<) (map visit_id vs)" and "list_all (\<lambda>v. visit_id v < vid) vs"
  shows "sorted_wrt (<) (map visit_id vs') \<and> list_all (\<lambda>v. visit_id v < vid + 1) vs'"
  using assms(1)
proof (cases rule: append_visit_cases)
  case rejected
  then show ?thesis
    using assms(2,3) by (auto simp add: list_all_iff)
next
  case (accepted sdt edt)
  then show ?thesis
    using assms(2,3) by (auto simp add: list_all_iff sorted_wrt_append)
qed

lemma step_body_ids:
  assumes "step_body env g p s cur = Inr s'" and "ids_inv s"
  shows "ids_inv s'"
  using assms(1)
proof (cases rule: step_body_cases)
  case (split vs)
  then show ?thesis
    using append_visit_ids [OF split(5)] assms(2) by (simp add: ids_inv_def)
next
  case (close vs)
  then show ?thesis
    using append_visit_ids [OF close(4)] assms(2) by (simp add: ids_inv_def)
qed (use assms(2) in \<open>simp_all add: ids_inv_def\<close>)

lemma step_ids:
  assumes "step env g p s cur = Inr s'" and "ids_inv s"
  shows "ids_inv s'"
  using assms(1)
proof (cases rule: step_cases)
  case (1 s1)
  then show ?thesis
    using step_body_ids [OF 1(1) assms(2)] by (simp add: ids_inv_def)
qed

lemma run_loop_ids:
  "run_loop env g p s rest = Inr s' \<Longrightarrow> ids_inv s \<Longrightarrow> ids_inv s'"
proof (induction rest arbitrary: s)
  case Nil
  then show ?case by simp
next
  case (Cons cur rest)
  from Cons.prems(1) obtain s1 where s1: "step env g p s cur = Inr s1"
    and rest: "run_loop env g p s1 rest = Inr s'"
    by (auto split: sum.splits)
  show ?case
    using Cons.IH [OF rest step_ids [OF s1 Cons.prems(2)]] .
qed

lemma find_visits_ids:
  assumes "find_visits env pts g p = Inr vs"
  shows "sorted_wrt (<) (map visit_id vs)"
  using assms
proof (cases rule: find_visits_cases)
  case empty
  then show ?thesis by simp
next
  case (run p0 rest s)
  have "ids_inv (init_state g p0)"
    by (simp add: init_state_def Let_def ids_inv_def)
  then have inv: "ids_inv s"
    using run_loop_ids [OF run(2)] by simp
  show ?thesis
  proof (cases "in_visit s")
    case True
    then have "append_visit env (visits_v s) (visit_id_v s) (visit_start_ms s)
        (if 0 < last_inside_ms s then last_inside_ms s else geo_time_ms (prev s))
        (visit_points s) (method_v s) (tz_name p) (min_dwell_seconds p) = Inr vs"
      using run(3) by (simp add: close_at_end_def Let_def)
    then show ?thesis
      using append_visit_ids inv unfolding ids_inv_def by blast
  next
    case False
    then show ?thesis
      using run(3) inv by (simp add: close_at_end_def ids_inv_def)
  qed
qed

lemma step_consumes:
  assumes "step env g p s cur = Inr s'"
  shows "visit_id_v s' = (if closing_attempt g p s cur then visit_id_v s + 1 else visit_id_v s) \<and>
     (closing_attempt g p s cur \<longrightarrow>
        visits_v s' = visits_v s \<or>
        (\<exists>v. visits_v s' = visits_v s @ [v] \<and> visit_id v = visit_id_v s)) \<and>
     (\<not> closing_attempt g p s cur \<longrightarrow> visits_v s' = visits_v s)"
  using assms
proof (cases rule: step_cases)
  case (1 s1)
  from 1(1) have
    "visit_id_v s1 = (if closing_attempt g p s cur then visit_id_v s + 1 else visit_id_v s) \<and>
     (closing_attempt g p s cur \<longrightarrow>
        visits_v s1 = visits_v s \<or>
        (\<exists>v. visits_v s1 = visits_v s @ [v] \<and> visit_id v = visit_id_v s)) \<and>
     (\<not> closing_attempt g p s cur \<longrightarrow> visits_v s1 = visits_v s)"
  proof (cases rule: step_body_cases)
    case (split vs)
    from split(5) have "vs = visits_v s \<or>
        (\<exists>v. vs = visits_v s @ [v] \<and> visit_id v = visit_id_v s)"
      by (cases rule: append_visit_cases) auto
    then show ?thesis
      using split by (simp add: closing_attempt_def)
  next
    case (close vs)
    from close(4) have "vs = visits_v s \<or>
        (\<exists>v. vs = visits_v s @ [v] \<and> visit_id v = visit_id_v s)"
      by (cases rule: append_visit_cases) auto
    then show ?thesis
      using close by (simp add: closing_attempt_def)
  qed (simp_all add: closing_attempt_def)
  then show ?thesis
    using 1(2) by simp
qed

text \<open>
  Claim C6. Every closing attempt, accepted or rejected by the filter, consumes exactly
  one sequence number: an iteration that calls \<open>_append_visit\<close> raises the counter by one
  and either leaves the list as it is or appends one visit that carries the old counter;
  any other iteration changes neither. So the \<open>visit_id\<close> values of the emitted visits
  are strictly increasing, and a rejected candidate leaves a gap.
\<close>

theorem visit_ids_strictly_increasing:
  "(find_visits env pts g p = Inr vs \<longrightarrow> sorted_wrt (<) (map visit_id vs)) \<and>
   (step env g p s cur = Inr s' \<longrightarrow>
      visit_id_v s' = (if closing_attempt g p s cur then visit_id_v s + 1 else visit_id_v s) \<and>
      (closing_attempt g p s cur \<longrightarrow>
         visits_v s' = visits_v s \<or>
         (\<exists>v. visits_v s' = visits_v s @ [v] \<and> visit_id v = visit_id_v s)) \<and>
      (\<not> closing_attempt g p s cur \<longrightarrow> visits_v s' = visits_v s))"
  using find_visits_ids [of env pts g p vs] step_consumes [of env g p s cur s']
  by blast

theorem visit_ids_strictly_increasing_witness:
  "find_visits sample_env
     [inside_at 1000000, inside_at 50000000, inside_at 50120000]
     sample_fence default_params
     = Inr [mk_visit 2 50000000 50120000 2 ''restart_after_gap'' ''Asia/Shanghai''] \<and>
   sorted_wrt (<)
     (map visit_id [mk_visit 2 50000000 50120000 2 ''restart_after_gap'' ''Asia/Shanghai'']) \<and>
   closing_attempt sample_fence default_params
     (init_state sample_fence (inside_at 1000000)) (inside_at 50000000) \<and>
   step sample_env sample_fence default_params
     (init_state sample_fence (inside_at 1000000)) (inside_at 50000000)
     = Inr gap_split_state \<and>
   visit_id_v (init_state sample_fence (inside_at 1000000)) = 1 \<and>
   visit_id_v gap_split_state = 2 \<and>
   visits_v gap_split_state = []"
proof -
  have run: "find_visits sample_env
     [inside_at 1000000, inside_at 50000000, inside_at 50120000]
     sample_fence default_params
     = Inr [mk_visit 2 50000000 50120000 2 ''restart_after_gap'' ''Asia/Shanghai'']"
    by (simp add: run_defs)
  have attempt: "closing_attempt sample_fence default_params
     (init_state sample_fence (inside_at 1000000)) (inside_at 50000000)"
    by (simp add: closing_attempt_def init_state_def default_params_def)
  have one: "step sample_env sample_fence default_params
     (init_state sample_fence (inside_at 1000000)) (inside_at 50000000)
     = Inr gap_split_state"
    by (simp add: run_defs gap_split_state_def)
  show ?thesis
    using run attempt one
      visit_ids_strictly_increasing [of sample_env
        "[inside_at 1000000, inside_at 50000000, inside_at 50120000]"
        sample_fence default_params
        "[mk_visit 2 50000000 50120000 2 ''restart_after_gap'' ''Asia/Shanghai'']"
        "init_state sample_fence (inside_at 1000000)" "inside_at 50000000" gap_split_state]
    by (simp add: gap_split_state_def init_state_def)
qed

subsection \<open>Chronological order\<close>

lemma append_visit_order:
  assumes "append_visit env vs vid s_ms e_ms n m z d = Inr vs'"
    and "sorted_wrt (\<lambda>a b. end_ms a \<le> start_ms b) vs"
    and "list_all (\<lambda>v. end_ms v \<le> s_ms) vs"
    and "s_ms \<le> bound" and "e_ms \<le> bound"
  shows "sorted_wrt (\<lambda>a b. end_ms a \<le> start_ms b) vs' \<and>
         list_all (\<lambda>v. end_ms v \<le> bound) vs'"
  using assms(1)
proof (cases rule: append_visit_cases)
  case rejected
  then show ?thesis
    using assms(2-5) by (auto simp add: list_all_iff)
next
  case (accepted sdt edt)
  then show ?thesis
    using assms(2-5) by (auto simp add: list_all_iff sorted_wrt_append)
qed

lemma step_body_order:
  assumes "step_body env g p s cur = Inr s'" and "order_inv s"
    and "geo_time_ms (prev s) \<le> geo_time_ms cur"
  shows "order_inv (s'\<lparr>prev := cur, prev_inside := b\<rparr>)"
  using assms(1)
proof (cases rule: step_body_cases)
  case enter_mid
  have "geo_time_ms (prev s) \<le> boundary_ms (geo_time_ms (prev s)) (geo_time_ms cur)
      (transition_gap_seconds p) ''cur''"
    by (rule boundary_ms_lower)
  moreover have "boundary_ms (geo_time_ms (prev s)) (geo_time_ms cur)
      (transition_gap_seconds p) ''cur'' \<le> geo_time_ms cur"
    using boundary_ms_upper [of "geo_time_ms (prev s)" "geo_time_ms cur"] assms(3) by simp
  ultimately show ?thesis
    using enter_mid assms(2,3) by (auto simp add: order_inv_def list_all_iff)
next
  case enter_at
  then show ?thesis
    using assms(2,3) by (auto simp add: order_inv_def list_all_iff)
next
  case stay_out
  then show ?thesis
    using assms(2,3) by (auto simp add: order_inv_def list_all_iff split: option.splits)
next
  case (split vs)
  have "sorted_wrt (\<lambda>a b. end_ms a \<le> start_ms b) vs \<and>
      list_all (\<lambda>v. end_ms v \<le> geo_time_ms cur) vs"
    using split(1) assms(2,3)
    by (intro append_visit_order [OF split(5)]) (auto simp add: order_inv_def)
  then show ?thesis
    using split by (simp add: order_inv_def)
next
  case extend
  then show ?thesis
    using assms(2,3) by (auto simp add: order_inv_def list_all_iff)
next
  case (close vs)
  have "exit_started s cur \<le> geo_time_ms cur"
    using assms(2,3) by (auto simp add: exit_started_def order_inv_def split: option.splits)
  moreover have "last_inside_ms s \<le> geo_time_ms cur"
    using close(1) assms(2,3) by (simp add: order_inv_def)
  ultimately have "boundary_ms (last_inside_ms s) (exit_started s cur)
      (transition_gap_seconds p) ''prev'' \<le> geo_time_ms cur"
    using boundary_ms_upper [of "last_inside_ms s" "exit_started s cur"
        "transition_gap_seconds p" "''prev''"]
    by simp
  then have "sorted_wrt (\<lambda>a b. end_ms a \<le> start_ms b) vs \<and>
      list_all (\<lambda>v. end_ms v \<le> geo_time_ms cur) vs"
    using close(1) assms(2,3)
    by (intro append_visit_order [OF close(4)]) (auto simp add: order_inv_def)
  then show ?thesis
    using close by (simp add: order_inv_def)
next
  case pending
  have "exit_started s cur \<le> geo_time_ms cur"
    using assms(2,3) by (auto simp add: exit_started_def order_inv_def split: option.splits)
  then show ?thesis
    using pending assms(2,3) by (auto simp add: order_inv_def list_all_iff)
qed

lemma step_order:
  assumes "step env g p s cur = Inr s'" and "order_inv s"
    and "geo_time_ms (prev s) \<le> geo_time_ms cur"
  shows "order_inv s' \<and> prev s' = cur"
  using assms(1)
proof (cases rule: step_cases)
  case (1 s1)
  then show ?thesis
    using step_body_order [OF 1(1) assms(2,3)] by simp
qed

lemma run_loop_order:
  "run_loop env g p s rest = Inr s' \<Longrightarrow> order_inv s \<Longrightarrow>
   sorted (map geo_time_ms (prev s # rest)) \<Longrightarrow> order_inv s'"
proof (induction rest arbitrary: s)
  case Nil
  then show ?case by simp
next
  case (Cons cur rest)
  from Cons.prems(1) obtain s1 where s1: "step env g p s cur = Inr s1"
    and rest: "run_loop env g p s1 rest = Inr s'"
    by (auto split: sum.splits)
  have le: "geo_time_ms (prev s) \<le> geo_time_ms cur"
    using Cons.prems(3) by simp
  have inv1: "order_inv s1" and prev1: "prev s1 = cur"
    using step_order [OF s1 Cons.prems(2) le] by simp_all
  have "sorted (map geo_time_ms (prev s1 # rest))"
    using Cons.prems(3) prev1 by simp
  then show ?case
    using Cons.IH [OF rest inv1] by simp
qed

lemma find_visits_order:
  assumes "find_visits env pts g p = Inr vs"
  shows "sorted_wrt (\<lambda>a b. end_ms a \<le> start_ms b) vs"
  using assms
proof (cases rule: find_visits_cases)
  case empty
  then show ?thesis by simp
next
  case (run p0 rest s)
  have "sorted (map geo_time_ms (sort_key geo_time_ms pts))"
    by (rule sorted_sort_key)
  then have srt: "sorted (map geo_time_ms (prev (init_state g p0) # rest))"
    using run(1) by (simp add: init_state_def Let_def)
  have "order_inv (init_state g p0)"
    by (simp add: init_state_def Let_def order_inv_def)
  then have inv: "order_inv s"
    using run_loop_order [OF run(2) _ srt] by simp
  show ?thesis
  proof (cases "in_visit s")
    case True
    obtain e where app: "append_visit env (visits_v s) (visit_id_v s) (visit_start_ms s) e
        (visit_points s) (method_v s) (tz_name p) (min_dwell_seconds p) = Inr vs"
      using run(3) True by (simp add: close_at_end_def Let_def)
    have "sorted_wrt (\<lambda>a b. end_ms a \<le> start_ms b) (visits_v s)"
      and "list_all (\<lambda>v. end_ms v \<le> visit_start_ms s) (visits_v s)"
      using inv True by (simp_all add: order_inv_def)
    then show ?thesis
      using append_visit_order [OF app, of "max (visit_start_ms s) e"] by simp
  next
    case False
    then show ?thesis
      using run(3) inv by (simp add: close_at_end_def order_inv_def)
  qed
qed

text \<open>
  Claim C9. For every input and parameter set, the list returned by \<open>find_visits\<close> is in
  chronological order and its visits do not overlap: an earlier visit ends no later than
  any later visit starts, in particular for consecutive visits.
\<close>

theorem find_visits_chronological:
  assumes "find_visits env pts g p = Inr vs"
  shows "sorted_wrt (\<lambda>a b. end_ms a \<le> start_ms b) vs \<and>
         (\<forall>i. Suc i < length vs \<longrightarrow> end_ms (vs ! i) \<le> start_ms (vs ! Suc i))"
proof -
  have srt: "sorted_wrt (\<lambda>a b. end_ms a \<le> start_ms b) vs"
    using assms by (rule find_visits_order)
  have "end_ms (vs ! i) \<le> start_ms (vs ! Suc i)" if "Suc i < length vs" for i
    using sorted_wrt_nth_less [OF srt, of i "Suc i"] that by simp
  then show ?thesis using srt by simp
qed

theorem find_visits_chronological_witness:
  "find_visits sample_env
     [inside_at 1000000, inside_at 1120000, outside_at 1180000, outside_at 1780000,
      inside_at 5000000, inside_at 5120000]
     sample_fence default_params
     = Inr [mk_visit 1 1000000 1150000 2 ''exit_grace'' ''Asia/Shanghai'',
            mk_visit 2 5000000 5120000 2 ''midpoint_entry'' ''Asia/Shanghai''] \<and>
   end_ms (mk_visit 1 1000000 1150000 2 ''exit_grace'' ''Asia/Shanghai'')
     \<le> start_ms (mk_visit 2 5000000 5120000 2 ''midpoint_entry'' ''Asia/Shanghai'')"
proof -
  have run: "find_visits sample_env
     [inside_at 1000000, inside_at 1120000, outside_at 1180000, outside_at 1780000,
      inside_at 5000000, inside_at 5120000]
     sample_fence default_params
     = Inr [mk_visit 1 1000000 1150000 2 ''exit_grace'' ''Asia/Shanghai'',
            mk_visit 2 5000000 5120000 2 ''midpoint_entry'' ''Asia/Shanghai'']"
    by (simp add: run_defs)
  show ?thesis
    using run find_visits_chronological [OF run]
    by simp
qed

subsection \<open>Order of the input\<close>

lemma sort_key_permutation:
  assumes "distinct (map f xs)" and "mset ys = mset xs"
  shows "sort_key f ys = sort_key f xs"
proof -
  have "set ys = set xs"
    using assms(2) by (rule mset_eq_setD)
  moreover have "inj_on f (set xs)"
    using assms(1) by (simp add: distinct_map)
  ultimately have inj: "inj_on f (set ys)" by simp
  have ms: "mset ys = mset (sort_key f xs)"
    using assms(2) by simp
  have "sorted (map f (sort_key f xs))"
    by (rule sorted_sort_key)
  with ms inj show ?thesis
    by (rule sort_key_inj_key_eq)
qed

text \<open>
  Claim C8. For an input whose sample timestamps are pairwise distinct, \<open>find_visits\<close>
  does not depend on the order of the samples: on any permutation of the input it returns
  exactly what it returns on the time-sorted input.
\<close>

theorem find_visits_order_insensitive:
  assumes "distinct (map geo_time_ms pts)" and "mset pts' = mset pts"
  shows "find_visits env pts' g p = find_visits env (sort_key geo_time_ms pts) g p"
proof -
  have "sort_key geo_time_ms pts' = sort_key geo_time_ms pts"
    using assms by (rule sort_key_permutation)
  moreover have "sort_key geo_time_ms (sort_key geo_time_ms pts) = sort_key geo_time_ms pts"
    by (simp add: sort_key_id_if_sorted)
  ultimately show ?thesis
    by (simp add: find_visits_def)
qed

theorem find_visits_order_insensitive_witness:
  "distinct (map geo_time_ms
     [inside_at 1000, inside_at 61000, outside_at 121000, outside_at 721000]) \<and>
   mset [outside_at 721000, inside_at 61000, outside_at 121000, inside_at 1000]
     = mset [inside_at 1000, inside_at 61000, outside_at 121000, outside_at 721000] \<and>
   find_visits sample_env
     [outside_at 721000, inside_at 61000, outside_at 121000, inside_at 1000]
     sample_fence default_params
   = find_visits sample_env
       (sort_key geo_time_ms
          [inside_at 1000, inside_at 61000, outside_at 121000, outside_at 721000])
       sample_fence default_params \<and>
   find_visits sample_env
     [outside_at 721000, inside_at 61000, outside_at 121000, inside_at 1000]
     sample_fence default_params
   = Inr [mk_visit 1 1000 91000 2 ''exit_grace'' ''Asia/Shanghai'']"
proof -
  have d: "distinct (map geo_time_ms
     [inside_at 1000, inside_at 61000, outside_at 121000, outside_at 721000])"
    by simp
  have m: "mset [outside_at 721000, inside_at 61000, outside_at 121000, inside_at 1000]
     = mset [inside_at 1000, inside_at 61000, outside_at 121000, outside_at 721000]"
    by (simp add: add_mset_commute)
  have run: "find_visits sample_env
     [outside_at 721000, inside_at 61000, outside_at 121000, inside_at 1000]
     sample_fence default_params
   = Inr [mk_visit 1 1000 91000 2 ''exit_grace'' ''Asia/Shanghai'']"
    by (simp add: run_defs)
  show ?thesis
    using d m run
      find_visits_order_insensitive [OF d m, of sample_env sample_fence default_params]
    by simp
qed

subsection \<open>Outside samples during a visit\<close>

lemma engine_state_of_simps:
  "engine_state_of s = INSIDE \<longleftrightarrow> in_visit s \<and> outside_started_ms s = None"
  "engine_state_of s = OUTSIDE \<longleftrightarrow> \<not> in_visit s"
  "engine_state_of s = INSIDE_PENDING_EXIT \<longleftrightarrow> in_visit s \<and> outside_started_ms s \<noteq> None"
  by (auto simp add: engine_state_of_def split: option.splits)

lemma step_outside_pending:
  assumes "in_visit s" and "\<not> point_inside g cur"
    and "\<not> exit_grace_seconds p \<le> outside_seconds s cur"
  shows "step env g p s cur =
     Inr (s\<lparr>outside_started_ms := Some (exit_started s cur), prev := cur, prev_inside := False\<rparr>)"
  using assms
  unfolding step_def step_body_def Let_def outside_seconds_def exit_started_def
  by (simp split: if_splits)

lemma step_outside_close:
  assumes "in_visit s" and "\<not> point_inside g cur"
    and "exit_grace_seconds p \<le> outside_seconds s cur"
    and "step env g p s cur = Inr s'"
  shows "engine_state_of s' = OUTSIDE \<and> visit_id_v s' = visit_id_v s + 1 \<and>
     visit_end_ms s' = max (visit_end_ms s)
        (boundary_ms (last_inside_ms s) (exit_started s cur) (transition_gap_seconds p) ''prev'') \<and>
     append_visit env (visits_v s) (visit_id_v s) (visit_start_ms s)
       (max (visit_end_ms s)
          (boundary_ms (last_inside_ms s) (exit_started s cur) (transition_gap_seconds p) ''prev''))
       (visit_points s) ''exit_grace'' (tz_name p) (min_dwell_seconds p) = Inr (visits_v s')"
  using assms(4)
proof (cases rule: step_cases)
  case (1 s1)
  from 1(1) have "engine_state_of s1 = OUTSIDE \<and> visit_id_v s1 = visit_id_v s + 1 \<and>
     visit_end_ms s1 = max (visit_end_ms s)
        (boundary_ms (last_inside_ms s) (exit_started s cur) (transition_gap_seconds p) ''prev'') \<and>
     append_visit env (visits_v s) (visit_id_v s) (visit_start_ms s)
       (max (visit_end_ms s)
          (boundary_ms (last_inside_ms s) (exit_started s cur) (transition_gap_seconds p) ''prev''))
       (visit_points s) ''exit_grace'' (tz_name p) (min_dwell_seconds p) = Inr (visits_v s1)"
  proof (cases rule: step_body_cases)
    case (close vs)
    then show ?thesis by (simp add: engine_state_of_simps)
  qed (use assms(1-3) in simp_all)
  then show ?thesis
    using 1(2) by (simp add: engine_state_of_simps)
qed

text \<open>
  Claim C2, as amended. When the state is INSIDE and the current sample classifies
  outside, the engine records \<open>outside_started = cur.time\<close>; with \<open>exit_grace > 0\<close> it does
  only that and moves to INSIDE_PENDING_EXIT without closing the visit, with
  \<open>exit_grace \<le> 0\<close> it closes the visit at that same sample. A sample that classifies
  outside in INSIDE_PENDING_EXIT closes the visit exactly when
  \<open>cur.time - outside_started \<ge> exit_grace\<close> seconds, and otherwise changes nothing but
  \<open>prev\<close>. Whenever the visit is closed this way, the exit boundary is
  \<open>boundary(last_inside, outside_started, transition_gap, prefer last_inside side)\<close>, the
  visit end is \<open>max(current visit end, exit)\<close>, and the candidate goes through
  \<open>_append_visit\<close> with the tag \<open>exit_grace\<close>.
\<close>

theorem outside_sample_transitions:
  "(engine_state_of s = INSIDE \<and> \<not> point_inside g cur \<and> 0 < exit_grace_seconds p \<longrightarrow>
      step env g p s cur =
        Inr (s\<lparr>outside_started_ms := Some (geo_time_ms cur), prev := cur, prev_inside := False\<rparr>) \<and>
      engine_state_of
        (s\<lparr>outside_started_ms := Some (geo_time_ms cur), prev := cur, prev_inside := False\<rparr>)
        = INSIDE_PENDING_EXIT) \<and>
   (engine_state_of s = INSIDE \<and> \<not> point_inside g cur \<and> exit_grace_seconds p \<le> 0 \<and>
    step env g p s cur = Inr s' \<longrightarrow>
      engine_state_of s' = OUTSIDE \<and>
      visit_end_ms s' = max (visit_end_ms s)
        (boundary_ms (last_inside_ms s) (geo_time_ms cur) (transition_gap_seconds p) ''prev'') \<and>
      append_visit env (visits_v s) (visit_id_v s) (visit_start_ms s)
        (max (visit_end_ms s)
           (boundary_ms (last_inside_ms s) (geo_time_ms cur) (transition_gap_seconds p) ''prev''))
        (visit_points s) ''exit_grace'' (tz_name p) (min_dwell_seconds p) = Inr (visits_v s')) \<and>
   (engine_state_of s = INSIDE_PENDING_EXIT \<and> outside_started_ms s = Some t \<and>
    t \<le> geo_time_ms cur \<and> \<not> point_inside g cur \<and> step env g p s cur = Inr s'' \<longrightarrow>
      (engine_state_of s'' = OUTSIDE \<longleftrightarrow>
         exit_grace_seconds p \<le> real_of_int (geo_time_ms cur - t) / 1000) \<and>
      (exit_grace_seconds p \<le> real_of_int (geo_time_ms cur - t) / 1000 \<longrightarrow>
         visit_end_ms s'' = max (visit_end_ms s)
           (boundary_ms (last_inside_ms s) t (transition_gap_seconds p) ''prev'') \<and>
         append_visit env (visits_v s) (visit_id_v s) (visit_start_ms s)
           (max (visit_end_ms s)
              (boundary_ms (last_inside_ms s) t (transition_gap_seconds p) ''prev''))
           (visit_points s) ''exit_grace'' (tz_name p) (min_dwell_seconds p) = Inr (visits_v s'')) \<and>
      (real_of_int (geo_time_ms cur - t) / 1000 < exit_grace_seconds p \<longrightarrow>
         s'' = s\<lparr>prev := cur, prev_inside := False\<rparr>))"
proof (intro conjI impI)
  assume a: "engine_state_of s = INSIDE \<and> \<not> point_inside g cur \<and> 0 < exit_grace_seconds p"
  then have in_v: "in_visit s" and none: "outside_started_ms s = None"
    by (simp_all add: engine_state_of_simps)
  have st: "exit_started s cur = geo_time_ms cur"
    using none by (simp add: exit_started_def)
  then have "outside_seconds s cur = 0"
    by (simp add: outside_seconds_def)
  then have "\<not> exit_grace_seconds p \<le> outside_seconds s cur"
    using a by simp
  then show "step env g p s cur =
      Inr (s\<lparr>outside_started_ms := Some (geo_time_ms cur), prev := cur, prev_inside := False\<rparr>)"
    using step_outside_pending [of s g cur p env] in_v a st by simp
  show "engine_state_of
      (s\<lparr>outside_started_ms := Some (geo_time_ms cur), prev := cur, prev_inside := False\<rparr>)
      = INSIDE_PENDING_EXIT"
    using in_v by (simp add: engine_state_of_simps)
next
  assume a: "engine_state_of s = INSIDE \<and> \<not> point_inside g cur \<and> exit_grace_seconds p \<le> 0 \<and>
    step env g p s cur = Inr s'"
  then have in_v: "in_visit s" and none: "outside_started_ms s = None"
    by (simp_all add: engine_state_of_simps)
  have st: "exit_started s cur = geo_time_ms cur"
    using none by (simp add: exit_started_def)
  then have "outside_seconds s cur = 0"
    by (simp add: outside_seconds_def)
  then have "exit_grace_seconds p \<le> outside_seconds s cur"
    using a by simp
  from step_outside_close [OF in_v _ this, of g env s'] a st
  show "engine_state_of s' = OUTSIDE"
    and "visit_end_ms s' = max (visit_end_ms s)
        (boundary_ms (last_inside_ms s) (geo_time_ms cur) (transition_gap_seconds p) ''prev'')"
    and "append_visit env (visits_v s) (visit_id_v s) (visit_start_ms s)
        (max (visit_end_ms s)
           (boundary_ms (last_inside_ms s) (geo_time_ms cur) (transition_gap_seconds p) ''prev''))
        (visit_points s) ''exit_grace'' (tz_name p) (min_dwell_seconds p) = Inr (visits_v s')"
    by simp_all
next
  assume a: "engine_state_of s = INSIDE_PENDING_EXIT \<and> outside_started_ms s = Some t \<and>
    t \<le> geo_time_ms cur \<and> \<not> point_inside g cur \<and> step env g p s cur = Inr s''"
  then have in_v: "in_visit s" and some: "outside_started_ms s = Some t"
    and out: "\<not> point_inside g cur" and stp: "step env g p s cur = Inr s''"
    by (simp_all add: engine_state_of_simps)
  have st: "exit_started s cur = t"
    using some by (simp add: exit_started_def)
  have os: "outside_seconds s cur = real_of_int (geo_time_ms cur - t) / 1000"
    using a st by (simp add: outside_seconds_def)
  have closes: "engine_state_of s'' = OUTSIDE \<and>
      visit_end_ms s'' = max (visit_end_ms s)
        (boundary_ms (last_inside_ms s) t (transition_gap_seconds p) ''prev'') \<and>
      append_visit env (visits_v s) (visit_id_v s) (visit_start_ms s)
        (max (visit_end_ms s)
           (boundary_ms (last_inside_ms s) t (transition_gap_seconds p) ''prev''))
        (visit_points s) ''exit_grace'' (tz_name p) (min_dwell_seconds p) = Inr (visits_v s'')"
    if "exit_grace_seconds p \<le> real_of_int (geo_time_ms cur - t) / 1000"
    using step_outside_close [OF in_v out _ stp] that os st by simp
  have stays: "s'' = s\<lparr>prev := cur, prev_inside := False\<rparr>"
    if "real_of_int (geo_time_ms cur - t) / 1000 < exit_grace_seconds p"
  proof -
    have "\<not> exit_grace_seconds p \<le> outside_seconds s cur"
      using that os by simp
    from step_outside_pending [OF in_v out this, of env] stp st some
    show ?thesis by simp
  qed
  show "engine_state_of s'' = OUTSIDE \<longleftrightarrow>
      exit_grace_seconds p \<le> real_of_int (geo_time_ms cur - t) / 1000"
  proof (cases "exit_grace_seconds p \<le> real_of_int (geo_time_ms cur - t) / 1000")
    case True
    then show ?thesis using closes by simp
  next
    case False
    then have "s'' = s\<lparr>prev := cur, prev_inside := False\<rparr>"
      using stays by simp
    then show ?thesis
      using False in_v by (simp add: engine_state_of_simps)
  qed
  show "visit_end_ms s'' = max (visit_end_ms s)
        (boundary_ms (last_inside_ms s) t (transition_gap_seconds p) ''prev'')"
    if "exit_grace_seconds p \<le> real_of_int (geo_time_ms cur - t) / 1000"
    using closes that by simp
  show "append_visit env (visits_v s) (visit_id_v s) (visit_start_ms s)
        (max (visit_end_ms s)
           (boundary_ms (last_inside_ms s) t (transition_gap_seconds p) ''prev''))
        (visit_points s) ''exit_grace'' (tz_name p) (min_dwell_seconds p) = Inr (visits_v s'')"
    if "exit_grace_seconds p \<le> real_of_int (geo_time_ms cur - t) / 1000"
    using closes that by simp
  show "s'' = s\<lparr>prev := cur, prev_inside := False\<rparr>"
    if "real_of_int (geo_time_ms cur - t) / 1000 < exit_grace_seconds p"
    using stays that by simp
qed

lemmas state_defs = inside_state_def pending_state_def closed_state_def

theorem outside_sample_transitions_witness:
  "engine_state_of inside_state = INSIDE \<and>
   \<not> point_inside sample_fence (outside_at 1120000) \<and>
   0 < exit_grace_seconds default_params \<and>
   step sample_env sample_fence default_params inside_state (outside_at 1120000)
     = Inr (inside_state\<lparr>outside_started_ms := Some (geo_time_ms (outside_at 1120000)),
              prev := outside_at 1120000, prev_inside := False\<rparr>) \<and>
   engine_state_of pending_state = INSIDE_PENDING_EXIT \<and>
   outside_started_ms pending_state = Some 1120000 \<and>
   exit_grace_seconds default_params
     \<le> real_of_int (geo_time_ms (outside_at 1780000) - 1120000) / 1000 \<and>
   step sample_env sample_fence default_params pending_state (outside_at 1780000)
     = Inr (closed_state (outside_at 1780000)) \<and>
   engine_state_of (closed_state (outside_at 1780000)) = OUTSIDE \<and>
   visit_end_ms (closed_state (outside_at 1780000)) = 1090000 \<and>
   exit_grace_seconds (default_params\<lparr>exit_grace_seconds := 0\<rparr>) \<le> 0 \<and>
   step sample_env sample_fence (default_params\<lparr>exit_grace_seconds := 0\<rparr>) inside_state
     (outside_at 1120000)
     = Inr (closed_state (outside_at 1120000)) \<and>
   engine_state_of (closed_state (outside_at 1120000)) = OUTSIDE"
proof -
  have out1: "\<not> point_inside sample_fence (outside_at 1120000)"
    and out2: "\<not> point_inside sample_fence (outside_at 1780000)"
    by simp_all
  have e1: "engine_state_of inside_state = INSIDE"
    by (simp add: engine_state_of_def inside_state_def)
  have e2: "engine_state_of pending_state = INSIDE_PENDING_EXIT"
    by (simp add: engine_state_of_def state_defs)
  have o2: "outside_started_ms pending_state = Some 1120000"
    by (simp add: state_defs)
  have g1: "0 < exit_grace_seconds default_params"
    by (simp add: default_params_def)
  have g0: "exit_grace_seconds (default_params\<lparr>exit_grace_seconds := 0\<rparr>) \<le> 0"
    by simp
  have le: "1120000 \<le> geo_time_ms (outside_at 1780000)"
    by simp
  have long: "exit_grace_seconds default_params
     \<le> real_of_int (geo_time_ms (outside_at 1780000) - 1120000) / 1000"
    by (simp add: default_params_def)
  have s2: "step sample_env sample_fence default_params pending_state (outside_at 1780000)
     = Inr (closed_state (outside_at 1780000))"
    by (simp add: run_defs state_defs)
  have s4: "step sample_env sample_fence (default_params\<lparr>exit_grace_seconds := 0\<rparr>)
     inside_state (outside_at 1120000) = Inr (closed_state (outside_at 1120000))"
    by (simp add: run_defs state_defs)
  have w1: "step sample_env sample_fence default_params inside_state (outside_at 1120000)
     = Inr (inside_state\<lparr>outside_started_ms := Some (geo_time_ms (outside_at 1120000)),
              prev := outside_at 1120000, prev_inside := False\<rparr>)"
    using outside_sample_transitions [of inside_state sample_fence "outside_at 1120000"
        default_params sample_env, THEN conjunct1] e1 out1 g1
    by blast
  have w2: "engine_state_of (closed_state (outside_at 1120000)) = OUTSIDE"
    using outside_sample_transitions [of inside_state sample_fence "outside_at 1120000"
        "default_params\<lparr>exit_grace_seconds := 0\<rparr>" sample_env
        "closed_state (outside_at 1120000)", THEN conjunct2, THEN conjunct1] e1 out1 g0 s4
    by blast
  have w3: "engine_state_of (closed_state (outside_at 1780000)) = OUTSIDE"
    using outside_sample_transitions [of pending_state sample_fence "outside_at 1780000"
        default_params sample_env _ 1120000 "closed_state (outside_at 1780000)",
        THEN conjunct2, THEN conjunct2] e2 o2 le out2 s2 long
    by blast
  have v: "visit_end_ms (closed_state (outside_at 1780000)) = 1090000"
    by (simp add: closed_state_def)
  show ?thesis
    using e1 out1 g1 w1 e2 o2 long s2 w3 v g0 s4 w2 by blast
qed

text \<open>
  Claim C2 as stated fails when \<open>exit_grace_seconds\<close> is 0: after the inside samples at
  1000 s and 1060 s the state is INSIDE, and the first outside sample, at 1120 s, closes the
  visit and leaves the engine OUTSIDE.
\<close>

theorem inside_outside_closes_without_grace:
  "run_loop sample_env sample_fence (default_params\<lparr>exit_grace_seconds := 0\<rparr>)
     (init_state sample_fence (inside_at 1000000)) [inside_at 1060000] = Inr inside_state \<and>
   engine_state_of inside_state = INSIDE \<and>
   \<not> point_inside sample_fence (outside_at 1120000) \<and>
   step sample_env sample_fence (default_params\<lparr>exit_grace_seconds := 0\<rparr>) inside_state
     (outside_at 1120000)
     = Inr (closed_state (outside_at 1120000)) \<and>
   engine_state_of (closed_state (outside_at 1120000)) = OUTSIDE \<and>
   outside_started_ms (closed_state (outside_at 1120000)) = None \<and>
   visits_v inside_state = [] \<and>
   visits_v (closed_state (outside_at 1120000))
     = [mk_visit 1 1000000 1090000 2 ''exit_grace'' ''Asia/Shanghai'']"
proof -
  have "run_loop sample_env sample_fence (default_params\<lparr>exit_grace_seconds := 0\<rparr>)
     (init_state sample_fence (inside_at 1000000)) [inside_at 1060000] = Inr inside_state"
    by (simp add: run_defs state_defs)
  moreover have "engine_state_of inside_state = INSIDE"
    by (simp add: engine_state_of_def inside_state_def)
  moreover have "\<not> point_inside sample_fence (outside_at 1120000)"
    by simp
  moreover have "step sample_env sample_fence (default_params\<lparr>exit_grace_seconds := 0\<rparr>)
     inside_state (outside_at 1120000) = Inr (closed_state (outside_at 1120000))"
    by (simp add: run_defs state_defs)
  moreover have "engine_state_of (closed_state (outside_at 1120000)) = OUTSIDE"
    by (simp add: engine_state_of_def closed_state_def)
  moreover have "outside_started_ms (closed_state (outside_at 1120000)) = None"
    by (simp add: state_defs)
  moreover have "visits_v inside_state = []"
    by (simp add: inside_state_def)
  moreover have "visits_v (closed_state (outside_at 1120000))
     = [mk_visit 1 1000000 1090000 2 ''exit_grace'' ''Asia/Shanghai'']"
    by (simp add: closed_state_def)
  ultimately show ?thesis by blast
qed

subsection \<open>Splitting on a gap\<close>

lemma find_visits_sorted_input:
  assumes "sorted (map geo_time_ms (p0 # rest))"
  shows "find_visits env (p0 # rest) g p =
     (case run_loop env g p (init_state g p0) rest of
        Inl e \<Rightarrow> Inl e
      | Inr s \<Rightarrow> close_at_end env p s)"
proof -
  have "sort_key geo_time_ms (p0 # rest) = p0 # rest"
    using assms by (rule sort_key_id_if_sorted)
  then show ?thesis
    unfolding find_visits_def by simp
qed

lemma append_visit_empty_interval: "append_visit env vs vid t t n m z d = Inr vs"
  by (simp add: append_visit_def)

lemma step_inside_split:
  assumes "in_visit s" and "point_inside g cur" and "0 < last_inside_ms s"
    and "max_gap_seconds p < real_of_int (geo_time_ms cur - last_inside_ms s) / 1000"
  shows "step env g p s cur =
     (case append_visit env (visits_v s) (visit_id_v s) (visit_start_ms s) (last_inside_ms s)
             (visit_points s) ''split_on_inside_gap'' (tz_name p) (min_dwell_seconds p) of
        Inl e \<Rightarrow> Inl e
      | Inr vs \<Rightarrow>
          Inr (s\<lparr>outside_started_ms := None, visits_v := vs, visit_id_v := visit_id_v s + 1,
                  visit_start_ms := geo_time_ms cur, visit_end_ms := geo_time_ms cur,
                  last_inside_ms := geo_time_ms cur, visit_points := 1,
                  method_v := ''restart_after_gap'', prev := cur, prev_inside := True\<rparr>))"
  using assms unfolding step_def step_body_def Let_def
  by (simp split: sum.splits)

lemma step_inside_extend:
  assumes "in_visit s" and "point_inside g cur"
    and "\<not> (0 < last_inside_ms s \<and>
          max_gap_seconds p < real_of_int (geo_time_ms cur - last_inside_ms s) / 1000)"
  shows "step env g p s cur =
     Inr (s\<lparr>outside_started_ms := None, visit_end_ms := geo_time_ms cur,
             last_inside_ms := geo_time_ms cur, visit_points := visit_points s + 1,
             prev := cur, prev_inside := True\<rparr>)"
proof -
  have "step_body env g p s cur =
     Inr (s\<lparr>outside_started_ms := None, visit_end_ms := geo_time_ms cur,
             last_inside_ms := geo_time_ms cur, visit_points := visit_points s + 1\<rparr>)"
    using assms unfolding step_body_def Let_def by (simp only: simp_thms if_True if_False)
  then show ?thesis
    using assms(2) by (simp add: step_def)
qed

text \<open>The state after a first sample inside the fence.\<close>

lemma init_state_inside:
  assumes "point_inside g p0"
  shows "init_state g p0 =
     \<lparr>visits_v = [], in_visit = True, visit_start_ms = geo_time_ms p0,
      visit_end_ms = geo_time_ms p0, last_inside_ms = geo_time_ms p0,
      outside_started_ms = None, visit_points = 1, visit_id_v = 1,
      method_v = ''start_at_first_inside'', prev = p0, prev_inside = True\<rparr>"
  using assms by (simp add: init_state_def Let_def)

lemma split_two_samples:
  assumes "point_inside g p1" "point_inside g p2"
    "0 < geo_time_ms p1" "geo_time_ms p1 \<le> geo_time_ms p2"
    "max_gap_seconds p < real_of_int (geo_time_ms p2 - geo_time_ms p1) / 1000"
  shows "find_visits env [p1, p2] g p = Inr []"
proof -
  let ?s0 = "\<lparr>visits_v = [], in_visit = True, visit_start_ms = geo_time_ms p1,
      visit_end_ms = geo_time_ms p1, last_inside_ms = geo_time_ms p1,
      outside_started_ms = None, visit_points = 1, visit_id_v = 1,
      method_v = ''start_at_first_inside'', prev = p1, prev_inside = True\<rparr>"
  let ?s1 = "\<lparr>visits_v = [], in_visit = True, visit_start_ms = geo_time_ms p2,
      visit_end_ms = geo_time_ms p2, last_inside_ms = geo_time_ms p2,
      outside_started_ms = None, visit_points = 1, visit_id_v = 2,
      method_v = ''restart_after_gap'', prev = p2, prev_inside = True\<rparr>"
  have srt: "sorted (map geo_time_ms [p1, p2])"
    using assms(4) by simp
  have st: "step env g p ?s0 p2 = Inr ?s1"
    using step_inside_split [of ?s0 g p2 p env] assms
    by (simp add: append_visit_empty_interval)
  have "find_visits env [p1, p2] g p = close_at_end env p ?s1"
    by (simp add: find_visits_sorted_input [OF srt] init_state_inside [OF assms(1)] st)
  also have "\<dots> = Inr []"
    by (simp add: close_at_end_def append_visit_empty_interval)
  finally show ?thesis .
qed

lemma split_four_samples:
  assumes "point_inside g p1" "point_inside g p2" "point_inside g p3" "point_inside g p4"
    "0 < geo_time_ms p1" "geo_time_ms p1 \<le> geo_time_ms p2"
    "geo_time_ms p2 \<le> geo_time_ms p3" "geo_time_ms p3 \<le> geo_time_ms p4"
    "real_of_int (geo_time_ms p2 - geo_time_ms p1) / 1000 \<le> max_gap_seconds p"
    "max_gap_seconds p < real_of_int (geo_time_ms p3 - geo_time_ms p2) / 1000"
    "real_of_int (geo_time_ms p4 - geo_time_ms p3) / 1000 \<le> max_gap_seconds p"
  shows "find_visits env [p1, p2, p3, p4] g p =
     (case append_visit env [] 1 (geo_time_ms p1) (geo_time_ms p2) 2
             ''split_on_inside_gap'' (tz_name p) (min_dwell_seconds p) of
        Inl e \<Rightarrow> Inl e
      | Inr vs \<Rightarrow>
          append_visit env vs 2 (geo_time_ms p3) (geo_time_ms p4) 2
            ''restart_after_gap'' (tz_name p) (min_dwell_seconds p))"
proof -
  let ?s0 = "\<lparr>visits_v = [], in_visit = True, visit_start_ms = geo_time_ms p1,
      visit_end_ms = geo_time_ms p1, last_inside_ms = geo_time_ms p1,
      outside_started_ms = None, visit_points = 1, visit_id_v = 1,
      method_v = ''start_at_first_inside'', prev = p1, prev_inside = True\<rparr>"
  let ?s1 = "\<lparr>visits_v = [], in_visit = True, visit_start_ms = geo_time_ms p1,
      visit_end_ms = geo_time_ms p2, last_inside_ms = geo_time_ms p2,
      outside_started_ms = None, visit_points = 2, visit_id_v = 1,
      method_v = ''start_at_first_inside'', prev = p2, prev_inside = True\<rparr>"
  let ?s2 = "\<lambda>vs. \<lparr>visits_v = vs, in_visit = True, visit_start_ms = geo_time_ms p3,
      visit_end_ms = geo_time_ms p3, last_inside_ms = geo_time_ms p3,
      outside_started_ms = None, visit_points = 1, visit_id_v = 2,
      method_v = ''restart_after_gap'', prev = p3, prev_inside = True\<rparr>"
  let ?s3 = "\<lambda>vs. \<lparr>visits_v = vs, in_visit = True, visit_start_ms = geo_time_ms p3,
      visit_end_ms = geo_time_ms p4, last_inside_ms = geo_time_ms p4,
      outside_started_ms = None, visit_points = 2, visit_id_v = 2,
      method_v = ''restart_after_gap'', prev = p4, prev_inside = True\<rparr>"
  let ?first = "append_visit env [] 1 (geo_time_ms p1) (geo_time_ms p2) 2
      ''split_on_inside_gap'' (tz_name p) (min_dwell_seconds p)"
  have srt: "sorted (map geo_time_ms [p1, p2, p3, p4])"
    using assms(6-8) by simp
  have pos: "0 < geo_time_ms p2" "0 < geo_time_ms p3" "0 < geo_time_ms p4"
    using assms(5-8) by simp_all
  have st1: "step env g p ?s0 p2 = Inr ?s1"
    using step_inside_extend [of ?s0 g p2 p env] assms(2,9) by simp
  have st2: "step env g p ?s1 p3 =
      (case ?first of Inl e \<Rightarrow> Inl e | Inr vs \<Rightarrow> Inr (?s2 vs))"
    using step_inside_split [of ?s1 g p3 p env] assms(3,10) pos(1)
    by (simp split: sum.splits)
  have st3: "step env g p (?s2 vs) p4 = Inr (?s3 vs)" for vs
    using step_inside_extend [of "?s2 vs" g p4 p env] assms(4,11) by simp
  have fin: "close_at_end env p (?s3 vs) =
      append_visit env vs 2 (geo_time_ms p3) (geo_time_ms p4) 2
        ''restart_after_gap'' (tz_name p) (min_dwell_seconds p)" for vs
    using pos(3) by (simp add: close_at_end_def)
  show ?thesis
  proof (cases ?first)
    case (Inl e)
    then show ?thesis
      by (simp add: find_visits_sorted_input [OF srt] init_state_inside [OF assms(1)]
          st1 st2)
  next
    case (Inr vs)
    then show ?thesis
      by (simp add: find_visits_sorted_input [OF srt] init_state_inside [OF assms(1)]
          st1 st2 st3 fin)
  qed
qed

text \<open>
  Claim C4, as amended. For two inside samples at times \<open>0 < t1 \<le> t2\<close> whose gap exceeds
  \<open>max_gap\<close> (as 1 s and 100001 s with \<open>max_gap = 3600\<close>), the gap forces a split with no
  outside sample in between, but both candidates have zero duration and are rejected: no
  visit is returned. For inside samples at \<open>0 < t1 \<le> t2 \<le> t3 \<le> t4\<close> where only the gap
  from \<open>t2\<close> to \<open>t3\<close> exceeds \<open>max_gap\<close>, the candidates are \<open>[t1, t2]\<close> with number 1 and
  tag \<open>split_on_inside_gap\<close>, and \<open>[t3, t4]\<close> with number 2 and tag \<open>restart_after_gap\<close>:
  the first ends at the last inside sample before the gap, the second starts at the first
  inside sample after it, and each goes through the filter of \<open>_append_visit\<close>.
\<close>

theorem gap_forces_split:
  "(point_inside g p1 \<and> point_inside g p2 \<and>
    0 < geo_time_ms p1 \<and> geo_time_ms p1 \<le> geo_time_ms p2 \<and>
    max_gap_seconds p < real_of_int (geo_time_ms p2 - geo_time_ms p1) / 1000 \<longrightarrow>
      find_visits env [p1, p2] g p = Inr []) \<and>
   (point_inside g q1 \<and> point_inside g q2 \<and> point_inside g q3 \<and> point_inside g q4 \<and>
    0 < geo_time_ms q1 \<and> geo_time_ms q1 \<le> geo_time_ms q2 \<and>
    geo_time_ms q2 \<le> geo_time_ms q3 \<and> geo_time_ms q3 \<le> geo_time_ms q4 \<and>
    real_of_int (geo_time_ms q2 - geo_time_ms q1) / 1000 \<le> max_gap_seconds p \<and>
    max_gap_seconds p < real_of_int (geo_time_ms q3 - geo_time_ms q2) / 1000 \<and>
    real_of_int (geo_time_ms q4 - geo_time_ms q3) / 1000 \<le> max_gap_seconds p \<longrightarrow>
      find_visits env [q1, q2, q3, q4] g p =
        (case append_visit env [] 1 (geo_time_ms q1) (geo_time_ms q2) 2
                ''split_on_inside_gap'' (tz_name p) (min_dwell_seconds p) of
           Inl e \<Rightarrow> Inl e
         | Inr vs \<Rightarrow>
             append_visit env vs 2 (geo_time_ms q3) (geo_time_ms q4) 2
               ''restart_after_gap'' (tz_name p) (min_dwell_seconds p)))"
  using split_two_samples [of g p1 p2 p env] split_four_samples [of g q1 q2 q3 q4 p env]
  by blast

theorem gap_forces_split_witness:
  "point_inside sample_fence (inside_at 1000) \<and>
   point_inside sample_fence (inside_at 100001000) \<and>
   0 < geo_time_ms (inside_at 1000) \<and>
   geo_time_ms (inside_at 1000) \<le> geo_time_ms (inside_at 100001000) \<and>
   max_gap_seconds (default_params\<lparr>max_gap_seconds := 3600\<rparr>)
     < real_of_int (geo_time_ms (inside_at 100001000) - geo_time_ms (inside_at 1000)) / 1000 \<and>
   find_visits sample_env [inside_at 1000, inside_at 100001000] sample_fence
     (default_params\<lparr>max_gap_seconds := 3600\<rparr>) = Inr [] \<and>
   find_visits sample_env
     [inside_at 1000000, inside_at 1120000, inside_at 101120000, inside_at 101240000]
     sample_fence (default_params\<lparr>max_gap_seconds := 3600\<rparr>)
     = Inr [mk_visit 1 1000000 1120000 2 ''split_on_inside_gap'' ''Asia/Shanghai'',
            mk_visit 2 101120000 101240000 2 ''restart_after_gap'' ''Asia/Shanghai'']"
proof -
  let ?p = "default_params\<lparr>max_gap_seconds := 3600\<rparr>"
  have h1: "point_inside sample_fence (inside_at 1000) \<and>
     point_inside sample_fence (inside_at 100001000) \<and>
     0 < geo_time_ms (inside_at 1000) \<and>
     geo_time_ms (inside_at 1000) \<le> geo_time_ms (inside_at 100001000) \<and>
     max_gap_seconds ?p
       < real_of_int (geo_time_ms (inside_at 100001000) - geo_time_ms (inside_at 1000)) / 1000"
    by simp
  have h2: "point_inside sample_fence (inside_at 1000000) \<and>
     point_inside sample_fence (inside_at 1120000) \<and>
     point_inside sample_fence (inside_at 101120000) \<and>
     point_inside sample_fence (inside_at 101240000) \<and>
     0 < geo_time_ms (inside_at 1000000) \<and>
     geo_time_ms (inside_at 1000000) \<le> geo_time_ms (inside_at 1120000) \<and>
     geo_time_ms (inside_at 1120000) \<le> geo_time_ms (inside_at 101120000) \<and>
     geo_time_ms (inside_at 101120000) \<le> geo_time_ms (inside_at 101240000) \<and>
     real_of_int (geo_time_ms (inside_at 1120000) - geo_time_ms (inside_at 1000000)) / 1000
       \<le> max_gap_seconds ?p \<and>
     max_gap_seconds ?p
       < real_of_int (geo_time_ms (inside_at 101120000) - geo_time_ms (inside_at 1120000)) / 1000 \<and>
     real_of_int (geo_time_ms (inside_at 101240000) - geo_time_ms (inside_at 101120000)) / 1000
       \<le> max_gap_seconds ?p"
    by simp
  have w1: "find_visits sample_env [inside_at 1000, inside_at 100001000] sample_fence ?p
      = Inr []"
    using gap_forces_split [of sample_fence "inside_at 1000" "inside_at 100001000" ?p
        sample_env, THEN conjunct1] h1
    by blast
  have w2: "find_visits sample_env
      [inside_at 1000000, inside_at 1120000, inside_at 101120000, inside_at 101240000]
      sample_fence ?p =
      (case append_visit sample_env [] 1 (geo_time_ms (inside_at 1000000))
              (geo_time_ms (inside_at 1120000)) 2
              ''split_on_inside_gap'' (tz_name ?p) (min_dwell_seconds ?p) of
         Inl e \<Rightarrow> Inl e
       | Inr vs \<Rightarrow>
           append_visit sample_env vs 2 (geo_time_ms (inside_at 101120000))
             (geo_time_ms (inside_at 101240000)) 2
             ''restart_after_gap'' (tz_name ?p) (min_dwell_seconds ?p))"
    using gap_forces_split [of sample_fence _ _ ?p sample_env
        "inside_at 1000000" "inside_at 1120000" "inside_at 101120000" "inside_at 101240000",
        THEN conjunct2] h2
    by blast
  have w3: "find_visits sample_env
      [inside_at 1000000, inside_at 1120000, inside_at 101120000, inside_at 101240000]
      sample_fence ?p
      = Inr [mk_visit 1 1000000 1120000 2 ''split_on_inside_gap'' ''Asia/Shanghai'',
             mk_visit 2 101120000 101240000 2 ''restart_after_gap'' ''Asia/Shanghai'']"
    unfolding w2
    by (simp add: append_visit_def dt_from_epoch_ms_def tzinfo_from_name_def sample_env_def
        default_params_def mk_visit_def float_lt_def)
  show ?thesis
    using h1 w1 w3 by blast
qed

text \<open>
  Claim C4 as stated fails. On inside samples at 0 s and 100000 s with
  \<open>max_gap = 3600\<close> one visit comes out, from 0 s to 100000 s; and with both samples one
  second later, none.
\<close>

theorem gap_input_not_two_visits:
  "find_visits sample_env [inside_at 0, inside_at 100000000] sample_fence
     (default_params\<lparr>max_gap_seconds := 3600\<rparr>)
     = Inr [mk_visit 1 0 100000000 2 ''start_at_first_inside'' ''Asia/Shanghai''] \<and>
   find_visits sample_env [inside_at 1000, inside_at 100001000] sample_fence
     (default_params\<lparr>max_gap_seconds := 3600\<rparr>)
     = Inr []"
proof -
  have "find_visits sample_env [inside_at 0, inside_at 100000000] sample_fence
     (default_params\<lparr>max_gap_seconds := 3600\<rparr>)
     = Inr [mk_visit 1 0 100000000 2 ''start_at_first_inside'' ''Asia/Shanghai'']"
    by (simp add: run_defs)
  moreover have "find_visits sample_env [inside_at 1000, inside_at 100001000] sample_fence
     (default_params\<lparr>max_gap_seconds := 3600\<rparr>) = Inr []"
    by (simp add: run_defs)
  ultimately show ?thesis by blast
qed

subsection \<open>The end of the stream\<close>

lemma close_at_end_last_inside:
  assumes "in_visit s" and "0 < last_inside_ms s"
  shows "close_at_end env p s =
     append_visit env (visits_v s) (visit_id_v s) (visit_start_ms s) (last_inside_ms s)
       (visit_points s) (method_v s) (tz_name p) (min_dwell_seconds p)"
  using assms by (simp add: close_at_end_def)

text \<open>
  Claim C7. At end of stream, if the engine is INSIDE or INSIDE_PENDING_EXIT, the open
  visit is closed with \<open>end = last_inside\<close>, never at the time of a possibly-outside last
  sample, and carries the method tag of the event that opened it. The code does so when
  \<open>last_inside_ms > 0\<close> (\<open>close_at_end_last_inside\<close>); when the last inside sample is
  at epoch 0 it does not: for an inside sample at 0 ms followed by an outside sample at
  100000 ms the visit that comes out ends at 100000 ms, the time of the outside sample.
\<close>

theorem end_of_stream_closes_at_outside_sample:
  "find_visits sample_env [inside_at 0, outside_at 100000] sample_fence default_params
     = Inr [mk_visit 1 0 100000 1 ''start_at_first_inside'' ''Asia/Shanghai''] \<and>
   \<not> point_inside sample_fence (outside_at 100000) \<and>
   end_ms (mk_visit 1 0 100000 1 ''start_at_first_inside'' ''Asia/Shanghai'')
     = geo_time_ms (outside_at 100000)"
proof -
  have "find_visits sample_env [inside_at 0, outside_at 100000] sample_fence default_params
     = Inr [mk_visit 1 0 100000 1 ''start_at_first_inside'' ''Asia/Shanghai'']"
    by (simp add: run_defs)
  moreover have "end_ms (mk_visit 1 0 100000 1 ''start_at_first_inside'' ''Asia/Shanghai'')
     = geo_time_ms (outside_at 100000)"
    by (simp add: mk_visit_def)
  ultimately show ?thesis by simp
qed

subsection \<open>Clipped summaries\<close>

lemma overlap_seconds_eq:
  "overlap_seconds v a b =
     max 0 (real_of_int (min (end_ms v) b - max (start_ms v) a) / 1000)"
  by (simp add: overlap_seconds_def Let_def)

lemma clipped_seconds_range:
  "clipped_seconds (Some a) (Some b) (start_ms v) (end_ms v) = overlap_seconds v a b"
  by (simp add: clipped_seconds_def overlap_seconds_def Let_def)

lemma range_totals_loop_eq:
  "range_totals_loop a b total_s hit vs =
     \<lparr>visits = hit + int (length (filter (\<lambda>v. 0 < overlap_seconds v a b) vs)),
      total_seconds =
        total_s + sum_list (map (\<lambda>v. overlap_seconds v a b)
                              (filter (\<lambda>v. 0 < overlap_seconds v a b) vs))\<rparr>"
proof (induction vs arbitrary: total_s hit)
  case Nil
  then show ?case by simp
next
  case (Cons v vs)
  show ?case
  proof (cases "overlap_seconds v a b \<le> 0")
    case True
    then show ?thesis using Cons.IH by (simp add: Let_def)
  next
    case False
    then show ?thesis using Cons.IH by (simp add: Let_def)
  qed
qed

lemma range_totals_eq:
  "range_totals vs a b =
     \<lparr>visits = int (length (filter (\<lambda>v. 0 < overlap_seconds v a b) vs)),
      total_seconds =
        sum_list (map (\<lambda>v. overlap_seconds v a b)
                    (filter (\<lambda>v. 0 < overlap_seconds v a b) vs))\<rparr>"
  by (simp add: range_totals_def range_totals_loop_eq)

lemma clipped_total_visits: "visits (clipped_total vs range_start range_end) = int (length vs)"
  by (simp add: clipped_total_def)

lemma sum_list_positive_overlaps:
  "sum_list (map (\<lambda>v. overlap_seconds v a b) (filter (\<lambda>v. 0 < overlap_seconds v a b) vs))
     = sum_list (map (\<lambda>v. overlap_seconds v a b) vs)"
proof (induction vs)
  case Nil
  then show ?case by simp
next
  case (Cons v vs)
  have "0 \<le> overlap_seconds v a b"
    by (simp add: overlap_seconds_def Let_def)
  then show ?case using Cons.IH by auto
qed

lemma clipped_total_seconds:
  "total_seconds (clipped_total vs (Some a) (Some b)) = total_seconds (range_totals vs a b)"
  by (simp add: clipped_total_def clipped_seconds_range range_totals_eq
      sum_list_positive_overlaps)

text \<open>
  Claim C5. The clipped summary over a range credits each visit with
  \<open>max(0, min(end, rangeEnd) - max(start, rangeStart))\<close> of overlap, sums only positive
  overlaps, and counts only the visits with positive overlap. The loop of
  streamlit_app.py does all three (\<open>range_totals_eq\<close>), and \<open>_cmd_sum_visits\<close> has the same
  total (\<open>clipped_total_seconds\<close>), but its count is the length of the list: for the
  visits [1000, 5000] and [10000, 20000] (ms) and the range [2000, 4000) it reports 2 s of
  overlap and 2 visits, although the second visit lies outside the range.
\<close>

theorem clipped_total_counts_every_visit:
  "clipped_total
     [mk_visit 1 1000 5000 3 ''exit_grace'' ''Asia/Shanghai'',
      mk_visit 2 10000 20000 3 ''exit_grace'' ''Asia/Shanghai'']
     (Some 2000) (Some 4000)
     = \<lparr>visits = 2, total_seconds = 2\<rparr> \<and>
   overlap_seconds (mk_visit 2 10000 20000 3 ''exit_grace'' ''Asia/Shanghai'') 2000 4000 = 0 \<and>
   range_totals
     [mk_visit 1 1000 5000 3 ''exit_grace'' ''Asia/Shanghai'',
      mk_visit 2 10000 20000 3 ''exit_grace'' ''Asia/Shanghai'']
     2000 4000
     = \<lparr>visits = 1, total_seconds = 2\<rparr>"
  by (simp add: clipped_total_def clipped_seconds_def overlap_seconds_def range_totals_def
      mk_visit_def Let_def)

end
